theory Spec2Isabelle
  imports Complex_Main "HOL-Library.Sublist" "HOL-Library.Word"
begin

section \<open>The fixed-list trainer (src/main.tsx)\<close>

subsection \<open>Data model\<close>

text \<open>The module constant \<open>WORDS\<close>: the 25 words, in source order.\<close>

definition WORDS :: "string list" where
  "WORDS = [''knight'', ''write'', ''catch'', ''phone'', ''gnaw'',
            ''dream'', ''bread'', ''train'', ''coach'', ''green'',
            ''pie'', ''thief'', ''coin'', ''toy'',
            ''start'', ''storm'', ''bird'', ''fern'', ''turn'',
            ''running'', ''played'', ''fearless'', ''bigger'', ''paper'', ''music'']"

text \<open>
  \<open>type Status = "correct" | "incorrect" | "skipped" | null\<close>. The three strings are the
  type \<open>Mark\<close> (\<open>Exclude<Status, null>\<close>, the argument type of \<open>handleMark\<close>); \<open>null\<close> is
  \<open>None\<close>. A \<open>Record<string, Status>\<close> is a map whose lookup is \<open>None\<close> where JavaScript
  yields \<open>undefined\<close> (no such key), so \<open>Some None\<close> is a key holding \<open>null\<close>.
\<close>

datatype Mark = Correct | Incorrect | Skipped

type_synonym Status = "Mark option"

datatype View = Trainer | Summary

text \<open>
  The three \<open>useState\<close> cells of the component. \<open>index\<close> is a JavaScript number that every
  handler below moves by whole steps; it is modelled as an integer.
\<close>

record app_state =
  statuses :: "string \<rightharpoonup> Status"
  index :: int
  view :: View

text \<open>
  The functions below take the word list as their first argument \<open>ws\<close>; the program is
  their instance at \<open>WORDS\<close>.
\<close>

text \<open>\<open>WORDS[index]\<close>: out of range the read is \<open>undefined\<close>, which as a computed property
  key is the string \<open>"undefined"\<close>.\<close>

definition word_at :: "string list \<Rightarrow> int \<Rightarrow> string" where
  "word_at ws i = (if 0 \<le> i \<and> i < int (length ws) then ws ! nat i else ''undefined'')"

text \<open>\<open>Array.prototype.findIndex\<close> and \<open>indexOf\<close>: the first position, or \<open>-1\<close>.\<close>

fun findIndex_from :: "('a \<Rightarrow> bool) \<Rightarrow> 'a list \<Rightarrow> int \<Rightarrow> int" where
  "findIndex_from p [] k = - 1"
| "findIndex_from p (x # xs) k = (if p x then k else findIndex_from p xs (k + 1))"

definition findIndex :: "('a \<Rightarrow> bool) \<Rightarrow> 'a list \<Rightarrow> int" where
  "findIndex p xs = findIndex_from p xs 0"

definition indexOf :: "'a list \<Rightarrow> 'a \<Rightarrow> int" where
  "indexOf xs w = findIndex_from (\<lambda>x. x = w) xs 0"

subsection \<open>Derived views\<close>

record Groups =
  correct :: "string list"
  incorrect :: "string list"
  notAnswered :: "string list"

text \<open>The body of the \<open>forEach\<close> in \<open>groups\<close>: one \<open>push\<close> per word.\<close>

definition group_word :: "(string \<rightharpoonup> Status) \<Rightarrow> Groups \<Rightarrow> string \<Rightarrow> Groups" where
  "group_word sts g w =
     (if sts w = Some (Some Correct) then g\<lparr>correct := correct g @ [w]\<rparr>
      else if sts w = Some (Some Incorrect) then g\<lparr>incorrect := incorrect g @ [w]\<rparr>
      else g\<lparr>notAnswered := notAnswered g @ [w]\<rparr>)"

definition groups :: "string list \<Rightarrow> (string \<rightharpoonup> Status) \<Rightarrow> Groups" where
  "groups ws sts =
     foldl (group_word sts) \<lparr>correct = [], incorrect = [], notAnswered = []\<rparr> ws"

definition allDone :: "string list \<Rightarrow> (string \<rightharpoonup> Status) \<Rightarrow> bool" where
  "allDone ws sts \<longleftrightarrow> length (notAnswered (groups ws sts)) = 0"

subsection \<open>Handlers\<close>

text \<open>The test of \<open>nextIndex\<close>:
  \<open>statuses[w] === null || statuses[w] === "skipped"\<close>.\<close>

definition remaining_word :: "(string \<rightharpoonup> Status) \<Rightarrow> string \<Rightarrow> bool" where
  "remaining_word sts w \<longleftrightarrow> sts w = Some None \<or> sts w = Some (Some Skipped)"

definition nextIndex :: "string list \<Rightarrow> (string \<rightharpoonup> Status) \<Rightarrow> int \<Rightarrow> int" where
  "nextIndex ws sts frm =
     (if frm < int (length ws) - 1 then frm + 1
      else (let remaining = findIndex (remaining_word sts) ws
            in if remaining = - 1 then frm else remaining))"

definition prev :: "app_state \<Rightarrow> app_state" where
  "prev s = s\<lparr>index := (if index s > 0 then index s - 1 else 0)\<rparr>"

text \<open>\<open>next\<close> of the source (the name is reserved here).\<close>

definition next_word :: "string list \<Rightarrow> app_state \<Rightarrow> app_state" where
  "next_word ws s =
     (let ni = nextIndex ws (statuses s) (index s)
      in if ni = index s then s\<lparr>view := Summary\<rparr> else s\<lparr>index := ni\<rparr>)"

text \<open>
  \<open>handleMark\<close> queues the status update and then calls \<open>nextIndex\<close>, which reads the
  \<open>statuses\<close> of the current render: the map before the update.
\<close>

definition handleMark :: "string list \<Rightarrow> Mark \<Rightarrow> app_state \<Rightarrow> app_state" where
  "handleMark ws mark s =
     (let word = word_at ws (index s);
          s' = s\<lparr>statuses := (statuses s)(word \<mapsto> Some mark)\<rparr>;
          ni = nextIndex ws (statuses s) (index s)
      in if ni = index s then s'\<lparr>view := Summary\<rparr> else s'\<lparr>index := ni\<rparr>)"

text \<open>The object built by \<open>WORDS.forEach((w) => (cleared[w] = null))\<close>.\<close>

definition cleared :: "string list \<Rightarrow> (string \<rightharpoonup> Status)" where
  "cleared ws = foldl (\<lambda>m w. m(w \<mapsto> None)) Map.empty ws"

definition resetAll :: "string list \<Rightarrow> app_state \<Rightarrow> app_state" where
  "resetAll ws s = s\<lparr>statuses := cleared ws, index := 0, view := Trainer\<rparr>"

definition jumpToWord :: "string list \<Rightarrow> string \<Rightarrow> app_state \<Rightarrow> app_state" where
  "jumpToWord ws w s =
     (let i = indexOf ws w
      in if i \<ge> 0 then s\<lparr>index := i, view := Trainer\<rparr> else s)"

text \<open>The state of a first start with nothing stored: every word \<open>null\<close>, position 0,
  the trainer view.\<close>

definition default_state :: "string list \<Rightarrow> app_state" where
  "default_state ws = \<lparr>statuses = cleared ws, index = 0, view = Trainer\<rparr>"

section \<open>The file-loaded trainer (src/App.tsx)\<close>

text \<open>
  \<open>type Status = "unanswered" | "correct" | "incorrect" | "skipped"\<close>, kept in a
  \<open>Record<number, Status>\<close> keyed by position; a position never marked reads \<open>undefined\<close>
  (\<open>None\<close>).
\<close>

datatype Status_txt = Unanswered_txt | Correct_txt | Incorrect_txt | Skipped_txt

text \<open>A JavaScript string is a sequence of UTF-16 code units.\<close>

type_synonym jsstring = "16 word list"

record txt_state =
  words :: "jsstring list"
  statuses_txt :: "int \<rightharpoonup> Status_txt"
  index_txt :: int

text \<open>\<open>for (let i = lo; i < hi; i++) if (statuses[i] !== "correct") return i\<close>, with
  \<open>None\<close> when the loop runs out.\<close>

function scan_not_correct :: "(int \<rightharpoonup> Status_txt) \<Rightarrow> int \<Rightarrow> int \<Rightarrow> int option" where
  "scan_not_correct sts i hi =
     (if i < hi then (if sts i \<noteq> Some Correct_txt then Some i
                      else scan_not_correct sts (i + 1) hi)
      else None)"
  by pat_completeness auto
termination
  by (relation "measure (\<lambda>(sts, i, hi). nat (hi - i))") auto

declare scan_not_correct.simps [simp del]

definition goToNextUnfinished :: "int \<Rightarrow> txt_state \<Rightarrow> txt_state" where
  "goToNextUnfinished start s =
     (case scan_not_correct (statuses_txt s) (start + 1) (int (length (words s))) of
        Some i \<Rightarrow> s\<lparr>index_txt := i\<rparr>
      | None \<Rightarrow>
          (case scan_not_correct (statuses_txt s) 0 (start + 1) of
             Some i \<Rightarrow> s\<lparr>index_txt := i\<rparr>
           | None \<Rightarrow> s))"

text \<open>
  \<open>updateStatus\<close> queues the status update, then \<open>goToNextUnfinished\<close> scans the
  \<open>statuses\<close> of the current render (before the update) and sets the index.
\<close>

definition updateStatus :: "Status_txt \<Rightarrow> txt_state \<Rightarrow> txt_state" where
  "updateStatus status s =
     (let s' = (if status = Correct_txt then goToNextUnfinished (index_txt s) s else s)
      in s'\<lparr>statuses_txt := (statuses_txt s)(index_txt s \<mapsto> status)\<rparr>)"

definition goPrev :: "txt_state \<Rightarrow> txt_state" where
  "goPrev s = s\<lparr>index_txt :=
     (if index_txt s > 0 then index_txt s - 1 else int (length (words s)) - 1)\<rparr>"

definition goNext :: "txt_state \<Rightarrow> txt_state" where
  "goNext s = goToNextUnfinished (index_txt s) s"

text \<open>The Reset button: \<open>setStatuses({}); setIndex(0)\<close>.\<close>

definition reset_txt :: "txt_state \<Rightarrow> txt_state" where
  "reset_txt s = s\<lparr>statuses_txt := Map.empty, index_txt := 0\<rparr>"

section \<open>Persistence (src/main.tsx)\<close>

subsection \<open>JSON values and the browser store\<close>

text \<open>
  What \<open>JSON.parse\<close> can return: the type \<open>any\<close> of \<open>parsed\<close>. An object is the map of
  its own keys; a number is the real it denotes.
\<close>

datatype json =
    JNull
  | JBool bool
  | JNum real
  | JStr string
  | JArr "json list"
  | JObj "string \<Rightarrow> json option"

text \<open>
  A string kept by \<open>localStorage\<close>, told apart only by what the loader does with it: the
  empty string (falsy, so \<open>!raw\<close> holds), a text on which \<open>JSON.parse\<close> throws, and a
  text that parses to a value. \<open>JSON.stringify\<close> of a plain object of strings, nulls and
  finite numbers is the text that parses back to that object.
\<close>

datatype stored_text = Empty | NotJSON | JSONText json

datatype js_error = SecurityError | QuotaExceededError | SyntaxError | TypeError

text \<open>
  \<open>localStorage\<close>: the items, whether access is denied (every call throws) and whether
  the quota is used up (\<open>setItem\<close> throws).
\<close>

record localStorage =
  items :: "string \<rightharpoonup> stored_text"
  denied :: bool
  full :: bool

definition getItem :: "localStorage \<Rightarrow> string \<Rightarrow> js_error + stored_text option" where
  "getItem st k = (if denied st then Inl SecurityError else Inr (items st k))"

definition setItem :: "localStorage \<Rightarrow> string \<Rightarrow> stored_text \<Rightarrow> js_error + localStorage" where
  "setItem st k v =
     (if denied st then Inl SecurityError
      else if full st then Inl QuotaExceededError
      else Inr (st\<lparr>items := (items st)(k \<mapsto> v)\<rparr>))"

definition JSON_parse :: "stored_text \<Rightarrow> js_error + json" where
  "JSON_parse raw = (case raw of JSONText v \<Rightarrow> Inr v | _ \<Rightarrow> Inl SyntaxError)"

text \<open>A property name that is an array index: a decimal numeral without leading zero.\<close>

definition digit_of :: "char \<Rightarrow> nat option" where
  "digit_of c =
     (let n = (of_char c :: nat) in if 48 \<le> n \<and> n \<le> 57 then Some (n - 48) else None)"

fun decimal :: "string \<Rightarrow> nat \<Rightarrow> nat option" where
  "decimal [] acc = Some acc"
| "decimal (c # cs) acc =
     (case digit_of c of None \<Rightarrow> None | Some d \<Rightarrow> decimal cs (10 * acc + d))"

definition array_index :: "string \<Rightarrow> nat option" where
  "array_index k =
     (case k of
        [] \<Rightarrow> None
      | c # cs \<Rightarrow> if c = CHR ''0'' \<and> cs \<noteq> [] then None else decimal k 0)"

text \<open>
  The read \<open>v[k]\<close> on a parsed value: a \<open>TypeError\<close> on \<open>null\<close>, the member of an object,
  the element of an array. \<open>None\<close> is \<open>undefined\<close>. Reads that JavaScript answers from a
  prototype or from a string (a method, \<open>length\<close>, one character) give no JSON member;
  they are \<open>None\<close> here, which the loader cannot tell apart: no built-in is named
  \<open>statuses\<close> or \<open>index\<close>, and none of those values is one of the three status strings.
\<close>

definition get_member :: "json \<Rightarrow> string \<Rightarrow> js_error + json option" where
  "get_member v k =
     (case v of
        JNull \<Rightarrow> Inl TypeError
      | JObj m \<Rightarrow> Inr (m k)
      | JArr xs \<Rightarrow>
          Inr (case array_index k of
                 Some i \<Rightarrow> if i < length xs then Some (xs ! i) else None
               | None \<Rightarrow> None)
      | _ \<Rightarrow> Inr None)"

text \<open>Optional chaining \<open>v?.[k]\<close>: \<open>undefined\<close> when \<open>v\<close> is \<open>undefined\<close> or \<open>null\<close>.\<close>

definition opt_member :: "json option \<Rightarrow> string \<Rightarrow> json option" where
  "opt_member v k =
     (case v of
        None \<Rightarrow> None
      | Some JNull \<Rightarrow> None
      | Some u \<Rightarrow> (case get_member u k of Inr r \<Rightarrow> r | Inl e \<Rightarrow> None))"

text \<open>
  \<open>s === "correct" || s === "incorrect" || s === "skipped" ? s : null\<close>, applied to
  \<open>s = ... ?? null\<close>.
\<close>

definition as_status :: "json option \<Rightarrow> Status" where
  "as_status s =
     (if s = Some (JStr ''correct'') then Some Correct
      else if s = Some (JStr ''incorrect'') then Some Incorrect
      else if s = Some (JStr ''skipped'') then Some Skipped
      else None)"

text \<open>
  \<open>Number(x)\<close>. The conversion of a string, an array or an object (parsing a numeral,
  joining an array, calling \<open>toString\<close>, which can throw) belongs to the language, not to
  this program: it is the parameter \<open>conv\<close>. A number too large for a double stands for
  an infinity; the clamp of \<open>loadStore\<close> sends both to the same end of the range.
\<close>

datatype number = NaN | Num real

definition Number_of :: "(json \<Rightarrow> js_error + number) \<Rightarrow> json option \<Rightarrow> js_error + number" where
  "Number_of conv v =
     (case v of
        None \<Rightarrow> Inr NaN
      | Some JNull \<Rightarrow> Inr (Num 0)
      | Some (JBool b) \<Rightarrow> Inr (Num (if b then 1 else 0))
      | Some (JNum x) \<Rightarrow> Inr (Num x)
      | Some u \<Rightarrow> conv u)"

text \<open>\<open>n || 0\<close>: \<open>NaN\<close> and zero are falsy.\<close>

definition or_zero :: "number \<Rightarrow> real" where
  "or_zero n = (case n of NaN \<Rightarrow> 0 | Num x \<Rightarrow> if x = 0 then 0 else x)"

subsection \<open>loadStore and saveStore\<close>

text \<open>\<open>type StoreShape = { statuses: Record<string, Status>; index: number; }\<close>; the
  number read back from the store need not be whole.\<close>

record StoreShape =
  s_statuses :: "string \<rightharpoonup> Status"
  s_index :: real

definition STORAGE_KEY :: string where
  "STORAGE_KEY = ''vocab_trainer_progress_v1''"

text \<open>The \<open>forEach\<close> of \<open>loadStore\<close>; each round reads \<open>parsed.statuses\<close>.\<close>

fun load_statuses ::
  "json \<Rightarrow> string list \<Rightarrow> (string \<rightharpoonup> Status) \<Rightarrow> js_error + (string \<rightharpoonup> Status)" where
  "load_statuses parsed [] m = Inr m"
| "load_statuses parsed (w # ws) m =
     (case get_member parsed ''statuses'' of
        Inl e \<Rightarrow> Inl e
      | Inr sv \<Rightarrow> load_statuses parsed ws (m(w \<mapsto> as_status (opt_member sv w))))"

text \<open>Every exception inside the \<open>try\<close> ends in \<open>catch { return null; }\<close>.\<close>

definition loadStore ::
  "string list \<Rightarrow> (json \<Rightarrow> js_error + number) \<Rightarrow> localStorage \<Rightarrow> StoreShape option" where
  "loadStore ws conv st =
     (case getItem st STORAGE_KEY of
        Inl e \<Rightarrow> None
      | Inr None \<Rightarrow> None
      | Inr (Some raw) \<Rightarrow>
          if raw = Empty then None
          else
            (case JSON_parse raw of
               Inl e \<Rightarrow> None
             | Inr parsed \<Rightarrow>
                 (case load_statuses parsed ws Map.empty of
                    Inl e \<Rightarrow> None
                  | Inr sts \<Rightarrow>
                      (case get_member parsed ''index'' of
                         Inl e \<Rightarrow> None
                       | Inr i \<Rightarrow>
                           (case Number_of conv i of
                              Inl e \<Rightarrow> None
                            | Inr n \<Rightarrow>
                                Some \<lparr>s_statuses = sts,
                                      s_index = min (max (or_zero n) 0)
                                                    (real (length ws) - 1)\<rparr>)))))"

definition encode_status :: "Status \<Rightarrow> json" where
  "encode_status s =
     (case s of
        None \<Rightarrow> JNull
      | Some Correct \<Rightarrow> JStr ''correct''
      | Some Incorrect \<Rightarrow> JStr ''incorrect''
      | Some Skipped \<Rightarrow> JStr ''skipped'')"

definition JSON_stringify :: "StoreShape \<Rightarrow> stored_text" where
  "JSON_stringify d =
     JSONText (JObj [''statuses'' \<mapsto> JObj (\<lambda>k. map_option encode_status (s_statuses d k)),
                     ''index'' \<mapsto> JNum (s_index d)])"

text \<open>\<open>try { localStorage.setItem(...) } catch {}\<close>: a failed write leaves the store as
  it was.\<close>

definition saveStore :: "localStorage \<Rightarrow> StoreShape \<Rightarrow> localStorage" where
  "saveStore st d =
     (case setItem st STORAGE_KEY (JSON_stringify d) of Inl e \<Rightarrow> st | Inr st' \<Rightarrow> st')"

text \<open>The object \<open>{ statuses, index }\<close> that the effect hands to \<open>saveStore\<close>.\<close>

definition store_of :: "app_state \<Rightarrow> StoreShape" where
  "store_of s = \<lparr>s_statuses = statuses s, s_index = real_of_int (index s)\<rparr>"

section \<open>The word file (src/App.tsx)\<close>

definition LF :: "16 word" where "LF = 0x0A"

definition CR :: "16 word" where "CR = 0x0D"

text \<open>Puts a code unit in front of the first line.\<close>

fun add_to_first :: "16 word \<Rightarrow> jsstring list \<Rightarrow> jsstring list" where
  "add_to_first c [] = [[c]]"
| "add_to_first c (l # ls) = (c # l) # ls"

text \<open>\<open>txt.split(/\r?\n/)\<close>: a line ends at a line feed, together with a carriage return
  right before it.\<close>

fun split_lines :: "jsstring \<Rightarrow> jsstring list" where
  "split_lines [] = [[]]"
| "split_lines [c] = (if c = LF then [[], []] else [[c]])"
| "split_lines (c # d # cs) =
     (if c = CR \<and> d = LF then [] # split_lines cs
      else if c = LF then [] # split_lines (d # cs)
      else add_to_first c (split_lines (d # cs)))"

text \<open>What \<open>String.prototype.trim\<close> strips: the WhiteSpace and LineTerminator code
  points of ECMAScript.\<close>

definition is_space :: "16 word \<Rightarrow> bool" where
  "is_space c \<longleftrightarrow>
     c = 0x09 \<or> c = 0x0A \<or> c = 0x0B \<or> c = 0x0C \<or> c = 0x0D \<or> c = 0x20 \<or> c = 0xA0 \<or>
     c = 0x1680 \<or> (0x2000 \<le> c \<and> c \<le> 0x200A) \<or> c = 0x2028 \<or> c = 0x2029 \<or>
     c = 0x202F \<or> c = 0x205F \<or> c = 0x3000 \<or> c = 0xFEFF"

definition trim :: "jsstring \<Rightarrow> jsstring" where
  "trim l = rev (dropWhile is_space (rev (dropWhile is_space l)))"

definition parseWords :: "jsstring \<Rightarrow> jsstring list" where
  "parseWords txt =
     take 100 (filter (\<lambda>l. length l > 0) (map trim (split_lines txt)))"

text \<open>
  The outcome of \<open>fetch\<close>: the promise rejects (no network), or there is a response with its
  \<open>ok\<close> flag, its status code and a body; \<open>None\<close> is a body whose reading rejects.
\<close>

record Response =
  ok :: bool
  status :: nat
  body :: "jsstring option"

datatype fetch_outcome = Rejected | Responded Response

datatype load_error = NetworkFailure | FailedToLoad nat | BodyFailure | NoWords

text \<open>\<open>loadTxt\<close>: the rejected promise is the \<open>Inl\<close> result.\<close>

definition loadTxt :: "fetch_outcome \<Rightarrow> load_error + jsstring list" where
  "loadTxt f =
     (case f of
        Rejected \<Rightarrow> Inl NetworkFailure
      | Responded res \<Rightarrow>
          if \<not> ok res then Inl (FailedToLoad (status res))
          else
            (case body res of
               None \<Rightarrow> Inl BodyFailure
             | Some txt \<Rightarrow>
                 (let ws = parseWords txt
                  in if length ws = 0 then Inl NoWords else Inr ws)))"

section \<open>The specification's notions\<close>

text \<open>
  The search as the specification words it: the positions strictly after \<open>i\<close>, then,
  wrapping, those before it; the first of them that passes the test. \<open>spec_search\<close> is
  the position the specification asks for: that one, or \<open>i\<close> itself when there is none.
\<close>

definition spec_nearest :: "(nat \<Rightarrow> bool) \<Rightarrow> nat \<Rightarrow> nat \<Rightarrow> nat option" where
  "spec_nearest p n i = find p ([Suc i ..< n] @ [0 ..< i])"

definition spec_search :: "(nat \<Rightarrow> bool) \<Rightarrow> nat \<Rightarrow> int \<Rightarrow> int" where
  "spec_search p n i = (case spec_nearest p n (nat i) of Some j \<Rightarrow> int j | None \<Rightarrow> i)"

text \<open>The two tests at a position: unset or skipped (main.tsx), not correct (App.tsx).\<close>

definition remaining_at :: "string list \<Rightarrow> (string \<rightharpoonup> Status) \<Rightarrow> nat \<Rightarrow> bool" where
  "remaining_at ws sts j \<longleftrightarrow> remaining_word sts (ws ! j)"

definition not_correct_at :: "string list \<Rightarrow> (string \<rightharpoonup> Status) \<Rightarrow> nat \<Rightarrow> bool" where
  "not_correct_at ws sts j \<longleftrightarrow> sts (ws ! j) \<noteq> Some (Some Correct)"

definition not_correct_txt :: "(int \<rightharpoonup> Status_txt) \<Rightarrow> nat \<Rightarrow> bool" where
  "not_correct_txt sts j \<longleftrightarrow> sts (int j) \<noteq> Some Correct_txt"

text \<open>
  What the specification promises of \<open>mark\<close>, from the state \<open>s\<close> before to the state \<open>s'\<close>
  after: the word at the position of \<open>s\<close> has the mark, and when a word after it (in
  wrap-around order) is still unset or skipped, the new position is the nearest such.
\<close>

definition spec_mark_post :: "string list \<Rightarrow> Mark \<Rightarrow> app_state \<Rightarrow> app_state \<Rightarrow> bool" where
  "spec_mark_post ws m s s' \<longleftrightarrow>
     statuses s' (ws ! nat (index s)) = Some (Some m) \<and>
     (case spec_nearest (remaining_at ws (statuses s')) (length ws) (nat (index s)) of
        Some j \<Rightarrow> index s' = int j
      | None \<Rightarrow> True)"

text \<open>What the specification promises of a step taken in a complete session: the position
  stays and the view is the summary.\<close>

definition spec_complete_post :: "app_state \<Rightarrow> app_state \<Rightarrow> bool" where
  "spec_complete_post s s' \<longleftrightarrow> index s' = index s \<and> view s' = Summary"

text \<open>
  The specification's valid state: every word has a status entry and the position is
  that of a word.
\<close>

definition has_entries :: "string list \<Rightarrow> (string \<rightharpoonup> Status) \<Rightarrow> bool" where
  "has_entries ws sts \<longleftrightarrow> list_all (\<lambda>w. sts w \<noteq> None) ws"

definition spec_valid :: "string list \<Rightarrow> app_state \<Rightarrow> bool" where
  "spec_valid ws s \<longleftrightarrow>
     has_entries ws (statuses s) \<and> 0 \<le> index s \<and> index s < int (length ws)"

text \<open>
  The specification's \<open>normalize\<close>: keys that are no word are dropped, a word without a
  known status is unset, the position is clamped into \<open>[0, wordCount - 1]\<close>.
\<close>

definition spec_clamp :: "nat \<Rightarrow> real \<Rightarrow> real" where
  "spec_clamp n x = (if x < 0 then 0 else if real n - 1 < x then real n - 1 else x)"

definition spec_normalize :: "string list \<Rightarrow> StoreShape \<Rightarrow> StoreShape" where
  "spec_normalize ws d =
     \<lparr>s_statuses = (\<lambda>w. if w \<in> set ws
                         then Some (case s_statuses d w of Some st \<Rightarrow> st | None \<Rightarrow> None)
                         else None),
      s_index = spec_clamp (length ws) (s_index d)\<rparr>"

text \<open>
  Lines as the specification sees them: a blank line has only whitespace; the lines of a
  text, joined by line feeds, give the text back without the carriage returns that stood
  right before a line feed.
\<close>

definition blank_line :: "jsstring \<Rightarrow> bool" where
  "blank_line l \<longleftrightarrow> list_all is_space l"

fun join_lines :: "jsstring list \<Rightarrow> jsstring" where
  "join_lines [] = []"
| "join_lines [l] = l"
| "join_lines (l # m # ls) = l @ LF # join_lines (m # ls)"

fun drop_cr :: "jsstring \<Rightarrow> jsstring" where
  "drop_cr [] = []"
| "drop_cr [c] = [c]"
| "drop_cr (c # d # cs) =
     (if c = CR \<and> d = LF then LF # drop_cr cs else c # drop_cr (d # cs))"

section \<open>Example states\<close>

definition every_word :: "string list \<Rightarrow> Status \<Rightarrow> (string \<rightharpoonup> Status)" where
  "every_word ws v = map_of (map (\<lambda>w. (w, v)) ws)"

definition cat_dog_bird :: "string list" where
  "cat_dog_bird = [''cat'', ''dog'', ''bird'']"

text \<open>All of \<open>WORDS\<close> unset but \<open>write\<close>, which is correct; the first word shown.\<close>

definition write_done :: app_state where
  "write_done =
     \<lparr>statuses = (cleared WORDS)(''write'' \<mapsto> Some Correct), index = 0, view = Trainer\<rparr>"

text \<open>All of \<open>WORDS\<close> correct; the first word shown.\<close>

definition all_correct :: app_state where
  "all_correct = \<lparr>statuses = every_word WORDS (Some Correct), index = 0, view = Trainer\<rparr>"

text \<open>All of \<open>WORDS\<close> correct but \<open>coach\<close>, which is skipped; the last word shown.\<close>

definition coach_skipped :: app_state where
  "coach_skipped =
     \<lparr>statuses = (every_word WORDS (Some Correct))(''coach'' \<mapsto> Some Skipped),
        index = 24, view = Trainer\<rparr>"

text \<open>All of \<open>WORDS\<close> correct but the last, \<open>music\<close>, which is unset and shown.\<close>

definition music_left :: app_state where
  "music_left =
     \<lparr>statuses = (every_word WORDS (Some Correct))(''music'' \<mapsto> None),
        index = 24, view = Trainer\<rparr>"

text \<open>Three words read from a file, the second marked incorrect; the first word shown.\<close>

definition three_txt :: txt_state where
  "three_txt =
     \<lparr>words = [[0x61], [0x62], [0x63]], statuses_txt = [1 \<mapsto> Incorrect_txt], index_txt = 0\<rparr>"

text \<open>App.tsx right after loading a file with the words cat, dog, bird: no status, the
  first word shown.\<close>

definition cat_dog_bird_txt :: txt_state where
  "cat_dog_bird_txt =
     \<lparr>words = [[0x63, 0x61, 0x74], [0x64, 0x6F, 0x67], [0x62, 0x69, 0x72, 0x64]],
        statuses_txt = Map.empty, index_txt = 0\<rparr>"

text \<open>A conversion under which no string, array or object is a number.\<close>

definition no_conv :: "json \<Rightarrow> js_error + number" where
  "no_conv v = Inr NaN"

text \<open>Stores: an empty one; an empty one whose quota is used up; one whose entry is the
  empty object; one whose entry is the number 5; one whose entry is no JSON; one whose
  entry was written for another word list and holds an unknown status and a position
  past the end.\<close>

definition fresh_storage :: localStorage where
  "fresh_storage = \<lparr>items = Map.empty, denied = False, full = False\<rparr>"

definition full_storage :: localStorage where
  "full_storage = \<lparr>items = Map.empty, denied = False, full = True\<rparr>"

definition empty_object_storage :: localStorage where
  "empty_object_storage =
     \<lparr>items = [STORAGE_KEY \<mapsto> JSONText (JObj Map.empty)], denied = False, full = False\<rparr>"

definition number_storage :: localStorage where
  "number_storage =
     \<lparr>items = [STORAGE_KEY \<mapsto> JSONText (JNum 5)], denied = False, full = False\<rparr>"

definition garbled_storage :: localStorage where
  "garbled_storage = \<lparr>items = [STORAGE_KEY \<mapsto> NotJSON], denied = False, full = False\<rparr>"

definition stale_statuses :: "string \<rightharpoonup> json" where
  "stale_statuses = [''knight'' \<mapsto> JStr ''correct'', ''write'' \<mapsto> JStr ''maybe'',
                     ''bogus'' \<mapsto> JStr ''skipped'']"

definition stale_object :: "string \<rightharpoonup> json" where
  "stale_object = [''statuses'' \<mapsto> JObj stale_statuses, ''index'' \<mapsto> JNum 99]"

definition stale_storage :: localStorage where
  "stale_storage =
     \<lparr>items = [STORAGE_KEY \<mapsto> JSONText (JObj stale_object)], denied = False, full = False\<rparr>"

text \<open>A word file: cat, an empty line, dog between spaces, a line with a tab, bird; the
  first and fourth lines end in carriage return and line feed.\<close>

definition sample_txt :: jsstring where
  "sample_txt = [0x63, 0x61, 0x74, 0x0D, 0x0A, 0x0A, 0x20, 0x20, 0x64, 0x6F, 0x67, 0x20, 0x0A,
                 0x09, 0x0D, 0x0A, 0x62, 0x69, 0x72, 0x64]"

definition missing_file :: Response where
  "missing_file = \<lparr>ok = False, status = 404, body = Some []\<rparr>"

definition blank_file :: Response where
  "blank_file = \<lparr>ok = True, status = 200, body = Some [0x20, 0x0D, 0x0A, 0x09, 0x0A]\<rparr>"

definition sample_file :: Response where
  "sample_file = \<lparr>ok = True, status = 200, body = Some sample_txt\<rparr>"

section \<open>Properties\<close>

subsection \<open>Lists and searches\<close>

lemma find_map_pos: "find P (map f xs) = map_option f (find (\<lambda>x. P (f x)) xs)"
  by (induction xs) auto

lemma find_append_pos:
  "find P (xs @ ys) = (case find P xs of None \<Rightarrow> find P ys | Some x \<Rightarrow> Some x)"
  by (induction xs) auto

lemma find_agree: "(\<And>x. x \<in> set xs \<Longrightarrow> P x = Q x) \<Longrightarrow> find P xs = find Q xs"
  by (induction xs) auto

lemma find_Some_set: "find P xs = Some x \<Longrightarrow> x \<in> set xs \<and> P x"
  by (induction xs) (auto split: if_splits)

lemma findIndex_from_find:
  "findIndex_from p xs k =
     (case find (\<lambda>j. p (xs ! j)) [0 ..< length xs] of None \<Rightarrow> - 1 | Some j \<Rightarrow> k + int j)"
proof (induction xs arbitrary: k)
  case Nil
  then show ?case by simp
next
  case (Cons x xs)
  have u: "[0 ..< length (x # xs)] = 0 # map Suc [0 ..< length xs]"
    by (simp add: upt_conv_Cons map_Suc_upt del: upt_Suc)
  show ?case
    unfolding u using Cons.IH [of "k + 1"]
    by (simp add: find_map_pos split: option.splits)
qed

lemma spec_nearest_last: "spec_nearest p (Suc n) n = find p [0 ..< n]"
  by (simp add: spec_nearest_def)

lemma spec_nearest_bound:
  "spec_nearest p n i = Some j \<Longrightarrow> i < n \<Longrightarrow> j < n \<and> j \<noteq> i \<and> p j"
  using find_Some_set [of p "[Suc i ..< n] @ [0 ..< i]" j]
  by (auto simp: spec_nearest_def)

lemma distinct_WORDS: "distinct WORDS"
  by (simp add: WORDS_def)

lemma length_WORDS: "length WORDS = 25"
  by (simp add: WORDS_def)

subsection \<open>The handlers of main.tsx\<close>

lemma cleared_foldl:
  "foldl (\<lambda>m w. m(w \<mapsto> None)) m0 ws w =
     (if w \<in> set ws then Some None else m0 w)"
  by (induction ws arbitrary: m0) auto

lemma cleared_apply: "cleared ws w = (if w \<in> set ws then Some None else None)"
  by (simp add: cleared_def cleared_foldl)

lemma every_word_apply: "every_word ws v w = (if w \<in> set ws then Some v else None)"
  by (induction ws) (auto simp: every_word_def)

lemma nextIndex_inner: "frm < int (length ws) - 1 \<Longrightarrow> nextIndex ws sts frm = frm + 1"
  by (simp add: nextIndex_def)

lemma nextIndex_last:
  assumes "frm = int (length ws) - 1" "ws \<noteq> []"
  shows "nextIndex ws sts frm =
     (case spec_nearest (remaining_at ws sts) (length ws) (length ws - 1) of
        Some j \<Rightarrow> int j | None \<Rightarrow> frm)"
proof -
  obtain n where n: "length ws = Suc n"
    using assms(2) by (cases ws) auto
  have frm: "frm = int n" using assms(1) n by simp
  have r: "remaining_at ws sts = (\<lambda>j. remaining_word sts (ws ! j))"
    by (simp add: remaining_at_def fun_eq_iff)
  show ?thesis
    by (simp add: nextIndex_def findIndex_def findIndex_from_find n frm spec_nearest_last
        find_append_pos Let_def r split: option.splits)
qed

lemma nextIndex_last_search:
  assumes "frm = int (length ws) - 1" "ws \<noteq> []"
  shows "nextIndex ws sts frm = spec_search (remaining_at ws sts) (length ws) frm"
proof -
  have "nat frm = length ws - 1" using assms by simp
  then show ?thesis
    by (simp add: nextIndex_last [OF assms] spec_search_def)
qed

lemma index_handleMark:
  "index (handleMark ws m s) = nextIndex ws (statuses s) (index s)"
  by (simp add: handleMark_def Let_def)

lemma view_handleMark:
  "view (handleMark ws m s) =
     (if nextIndex ws (statuses s) (index s) = index s then Summary else view s)"
  by (simp add: handleMark_def Let_def)

lemma statuses_handleMark:
  "statuses (handleMark ws m s) = (statuses s)(word_at ws (index s) \<mapsto> Some m)"
  by (simp add: handleMark_def Let_def)

lemma index_next_word:
  "index (next_word ws s) = nextIndex ws (statuses s) (index s)"
  by (simp add: next_word_def Let_def)

lemma view_next_word:
  "view (next_word ws s) =
     (if nextIndex ws (statuses s) (index s) = index s then Summary else view s)"
  by (simp add: next_word_def Let_def)

text \<open>With distinct words, marking the last word does not change what the search sees
  among the words before it.\<close>

lemma nearest_after_mark:
  assumes "distinct ws" "ws \<noteq> []"
  shows "spec_nearest (remaining_at ws (sts(ws ! (length ws - 1) \<mapsto> v)))
           (length ws) (length ws - 1) =
         spec_nearest (remaining_at ws sts) (length ws) (length ws - 1)"
proof -
  obtain n where n: "length ws = Suc n"
    using assms(2) by (cases ws) auto
  have "ws ! j \<noteq> ws ! n" if "j \<in> set [0 ..< n]" for j
    using that assms(1) n by (simp add: nth_eq_iff_index_eq)
  then have "find (remaining_at ws (sts(ws ! n \<mapsto> v))) [0 ..< n] =
             find (remaining_at ws sts) [0 ..< n]"
    by (intro find_agree) (simp add: remaining_at_def remaining_word_def)
  then show ?thesis
    by (simp add: n spec_nearest_last)
qed

lemma handleMark_at_last:
  assumes "distinct ws" and "0 \<le> index s" and "index s = int (length ws) - 1"
  shows "case spec_nearest (remaining_at ws (statuses (handleMark ws m s)))
               (length ws) (nat (index s)) of
          Some j \<Rightarrow> index (handleMark ws m s) = int j \<and> view (handleMark ws m s) = view s
        | None \<Rightarrow> index (handleMark ws m s) = index s \<and> view (handleMark ws m s) = Summary"
proof -
  have ne: "ws \<noteq> []" using assms by auto
  have pos: "nat (index s) = length ws - 1" using assms(3) ne by simp
  have w: "word_at ws (index s) = ws ! (length ws - 1)"
    using assms pos by (simp add: word_at_def)
  let ?r = "spec_nearest (remaining_at ws (statuses s)) (length ws) (length ws - 1)"
  have ni: "nextIndex ws (statuses s) (index s) =
      (case ?r of Some j \<Rightarrow> int j | None \<Rightarrow> index s)"
    using nextIndex_last [OF assms(3) ne] .
  have neq: "int j \<noteq> index s" if "?r = Some j" for j
    using spec_nearest_bound [OF that] ne assms(3) by auto
  show ?thesis
    unfolding statuses_handleMark w pos nearest_after_mark [OF assms(1) ne]
    using neq by (simp add: index_handleMark view_handleMark ni split: option.splits)
qed

lemma next_word_at_last:
  assumes "0 \<le> index s" and "index s = int (length ws) - 1"
  shows "case spec_nearest (remaining_at ws (statuses s)) (length ws) (nat (index s)) of
          Some j \<Rightarrow> index (next_word ws s) = int j \<and> view (next_word ws s) = view s
        | None \<Rightarrow> index (next_word ws s) = index s \<and> view (next_word ws s) = Summary"
proof -
  have ne: "ws \<noteq> []" using assms by auto
  have pos: "nat (index s) = length ws - 1" using assms(2) ne by simp
  let ?r = "spec_nearest (remaining_at ws (statuses s)) (length ws) (length ws - 1)"
  have ni: "nextIndex ws (statuses s) (index s) =
      (case ?r of Some j \<Rightarrow> int j | None \<Rightarrow> index s)"
    using nextIndex_last [OF assms(2) ne] .
  have neq: "int j \<noteq> index s" if "?r = Some j" for j
    using spec_nearest_bound [OF that] ne assms(2) by auto
  show ?thesis
    unfolding pos
    using neq by (simp add: index_next_word view_next_word ni split: option.splits)
qed

lemma notAnswered_foldl:
  "notAnswered (foldl (group_word sts) g ws) =
     notAnswered g @
     filter (\<lambda>w. sts w \<noteq> Some (Some Correct) \<and> sts w \<noteq> Some (Some Incorrect)) ws"
  by (induction ws arbitrary: g) (auto simp: group_word_def)

lemma allDone_iff:
  "allDone ws sts \<longleftrightarrow>
     (\<forall>w \<in> set ws. sts w = Some (Some Correct) \<or> sts w = Some (Some Incorrect))"
  by (auto simp: allDone_def groups_def notAnswered_foldl filter_empty_conv)

lemma allDone_no_remaining:
  assumes "allDone ws sts" and "j < length ws"
  shows "\<not> remaining_at ws sts j"
proof -
  have "ws ! j \<in> set ws" using assms(2) by simp
  then have "sts (ws ! j) = Some (Some Correct) \<or> sts (ws ! j) = Some (Some Incorrect)"
    using assms(1) unfolding allDone_iff by blast
  then show ?thesis
    by (auto simp: remaining_at_def remaining_word_def)
qed

lemma allDone_nearest:
  "allDone ws sts \<Longrightarrow> i < length ws \<Longrightarrow>
     spec_nearest (remaining_at ws sts) (length ws) i = None"
  by (auto simp: spec_nearest_def find_None_iff allDone_no_remaining)

lemma allDone_nextIndex:
  assumes "allDone ws sts" and "int (length ws) - 1 \<le> frm"
  shows "nextIndex ws sts frm = frm"
proof -
  have "find (\<lambda>j. remaining_word sts (ws ! j)) [0 ..< length ws] = None"
    using allDone_no_remaining [OF assms(1)] by (simp add: find_None_iff remaining_at_def)
  then show ?thesis
    using assms(2) by (simp add: nextIndex_def findIndex_def findIndex_from_find)
qed

subsection \<open>The handlers of App.tsx\<close>

lemma scan_not_correct_find:
  "0 \<le> lo \<Longrightarrow> scan_not_correct sts lo hi =
     map_option int (find (not_correct_txt sts) [nat lo ..< nat hi])"
proof (induction sts lo hi rule: scan_not_correct.induct)
  case (1 sts i hi)
  show ?case
  proof (cases "i < hi")
    case True
    then have u: "[nat i ..< nat hi] = nat i # [nat (i + 1) ..< nat hi]"
      using "1.prems" by (simp add: upt_conv_Cons nat_add_distrib)
    show ?thesis
    proof (cases "sts i \<noteq> Some Correct_txt")
      case True
      with \<open>i < hi\<close> "1.prems" show ?thesis
        unfolding u by (simp add: scan_not_correct.simps [of sts i hi] not_correct_txt_def)
    next
      case False
      with \<open>i < hi\<close> "1.prems" "1.IH" show ?thesis
        unfolding u by (simp add: scan_not_correct.simps [of sts i hi] not_correct_txt_def)
    qed
  next
    case False
    then show ?thesis
      using "1.prems" by (simp add: scan_not_correct.simps [of sts i hi])
  qed
qed

lemma goToNextUnfinished_search:
  assumes "0 \<le> start" "start < int (length (words s))"
  shows "goToNextUnfinished start s =
     (case spec_nearest (not_correct_txt (statuses_txt s)) (length (words s)) (nat start) of
        Some j \<Rightarrow> s\<lparr>index_txt := int j\<rparr>
      | None \<Rightarrow>
          if not_correct_txt (statuses_txt s) (nat start) then s\<lparr>index_txt := start\<rparr> else s)"
proof -
  have a: "nat (start + 1) = Suc (nat start)" using assms by simp
  show ?thesis
    using assms
    by (simp add: goToNextUnfinished_def scan_not_correct_find spec_nearest_def a
        find_append_pos split: option.splits)
qed

lemma goNext_search:
  assumes "0 \<le> index_txt t" "index_txt t < int (length (words t))"
  shows "goNext t = t\<lparr>index_txt :=
     spec_search (not_correct_txt (statuses_txt t)) (length (words t)) (index_txt t)\<rparr>"
  using assms
  by (simp add: goNext_def goToNextUnfinished_search spec_search_def split: option.splits)

lemma nearest_txt_after_mark:
  "i < n \<Longrightarrow> spec_nearest (not_correct_txt (sts(int i \<mapsto> v))) n i =
     spec_nearest (not_correct_txt sts) n i"
  unfolding spec_nearest_def
  by (intro find_agree) (auto simp: not_correct_txt_def)

lemma updateStatus_correct:
  assumes "0 \<le> index_txt t" "index_txt t < int (length (words t))"
  shows "updateStatus Correct_txt t = t\<lparr>index_txt :=
       spec_search (not_correct_txt (statuses_txt t)) (length (words t)) (index_txt t),
      statuses_txt := (statuses_txt t)(index_txt t \<mapsto> Correct_txt)\<rparr>"
  using assms
  by (simp add: updateStatus_def goToNextUnfinished_search spec_search_def
      split: option.splits)

subsection \<open>Claims about marking and moving\<close>

text \<open>
  C1, as the specification states it, at \<open>write_done\<close>: after marking \<open>knight\<close> correct the
  position is 1 (\<open>write\<close>, already correct), while the nearest word still unset is at
  position 2.
\<close>

theorem mark_nearest_counterexample:
  "\<not> spec_mark_post WORDS Correct write_done (handleMark WORDS Correct write_done)"
  by code_simp

text \<open>
  C1, amended. With distinct words and the position in range: after \<open>handleMark\<close> the word
  shown has the mark. If it is not the last word, the position moves to the next one,
  whatever that word's status, and the view stays. If it is the last word, the position
  moves to the nearest unset-or-skipped word in wrap-around order (the first from the
  start of the list) when there is one, and otherwise stays while the view becomes the
  summary. In App.tsx, \<open>updateStatus\<close> with \<open>correct\<close> records the status at the position
  and moves to the nearest position after it, in wrap-around order, whose status is not
  correct, staying when there is none.
\<close>

theorem mark_then_advance:
  assumes "distinct ws" and "0 \<le> index s" and "index s < int (length ws)"
    and "0 \<le> index_txt t" and "index_txt t < int (length (words t))"
  shows "statuses (handleMark ws m s) (ws ! nat (index s)) = Some (Some m) \<and>
    (index s < int (length ws) - 1 \<longrightarrow>
       index (handleMark ws m s) = index s + 1 \<and> view (handleMark ws m s) = view s) \<and>
    (index s = int (length ws) - 1 \<longrightarrow>
       (case spec_nearest (remaining_at ws (statuses (handleMark ws m s)))
               (length ws) (nat (index s)) of
          Some j \<Rightarrow> index (handleMark ws m s) = int j \<and> view (handleMark ws m s) = view s
        | None \<Rightarrow> index (handleMark ws m s) = index s \<and> view (handleMark ws m s) = Summary)) \<and>
    statuses_txt (updateStatus Correct_txt t) (index_txt t) = Some Correct_txt \<and>
    index_txt (updateStatus Correct_txt t) =
      spec_search (not_correct_txt (statuses_txt (updateStatus Correct_txt t)))
        (length (words t)) (index_txt t)"
proof (intro conjI impI)
  show "statuses (handleMark ws m s) (ws ! nat (index s)) = Some (Some m)"
    using assms by (simp add: statuses_handleMark word_at_def)
next
  assume "index s < int (length ws) - 1"
  then show "index (handleMark ws m s) = index s + 1"
    by (simp add: index_handleMark nextIndex_inner)
next
  assume "index s < int (length ws) - 1"
  then show "view (handleMark ws m s) = view s"
    by (simp add: view_handleMark nextIndex_inner)
next
  assume "index s = int (length ws) - 1"
  then show "case spec_nearest (remaining_at ws (statuses (handleMark ws m s)))
               (length ws) (nat (index s)) of
          Some j \<Rightarrow> index (handleMark ws m s) = int j \<and> view (handleMark ws m s) = view s
        | None \<Rightarrow> index (handleMark ws m s) = index s \<and> view (handleMark ws m s) = Summary"
    using handleMark_at_last [OF assms(1,2)] by simp
next
  show "statuses_txt (updateStatus Correct_txt t) (index_txt t) = Some Correct_txt"
    by (simp add: updateStatus_correct [OF assms(4,5)])
next
  have i: "nat (index_txt t) < length (words t)" using assms(4,5) by simp
  have "spec_search (not_correct_txt ((statuses_txt t)(index_txt t \<mapsto> Correct_txt)))
          (length (words t)) (index_txt t) =
        spec_search (not_correct_txt (statuses_txt t)) (length (words t)) (index_txt t)"
    using nearest_txt_after_mark [OF i, of "statuses_txt t" Correct_txt] assms(4)
    by (simp add: spec_search_def)
  then show "index_txt (updateStatus Correct_txt t) =
      spec_search (not_correct_txt (statuses_txt (updateStatus Correct_txt t)))
        (length (words t)) (index_txt t)"
    by (simp add: updateStatus_correct [OF assms(4,5)])
qed

theorem mark_then_advance_witness:
  "distinct WORDS \<and>
   statuses (handleMark WORDS Correct write_done) (WORDS ! nat (index write_done)) =
     Some (Some Correct) \<and>
   index (handleMark WORDS Correct write_done) = index write_done + 1 \<and>
   view (handleMark WORDS Correct write_done) = view write_done \<and>
   spec_nearest (remaining_at WORDS (statuses (handleMark WORDS Correct coach_skipped)))
     (length WORDS) (nat (index coach_skipped)) = Some 8 \<and>
   index (handleMark WORDS Correct coach_skipped) = 8 \<and>
   view (handleMark WORDS Correct coach_skipped) = view coach_skipped \<and>
   statuses_txt (updateStatus Correct_txt three_txt) (index_txt three_txt) = Some Correct_txt \<and>
   index_txt (updateStatus Correct_txt three_txt) = 1"
proof -
  have d: "distinct WORDS" by (rule distinct_WORDS)
  have a: "0 \<le> index write_done" "index write_done < int (length WORDS)"
    "index write_done < int (length WORDS) - 1"
    by code_simp+
  have b: "0 \<le> index coach_skipped" "index coach_skipped < int (length WORDS)"
    "index coach_skipped = int (length WORDS) - 1"
    by code_simp+
  have c: "0 \<le> index_txt three_txt" "index_txt three_txt < int (length (words three_txt))"
    by code_simp+
  have n: "spec_nearest (remaining_at WORDS (statuses (handleMark WORDS Correct coach_skipped)))
     (length WORDS) (nat (index coach_skipped)) = Some 8"
    by code_simp
  have e: "spec_search (not_correct_txt (statuses_txt (updateStatus Correct_txt three_txt)))
        (length (words three_txt)) (index_txt three_txt) = 1"
    by code_simp
  note t1 = mark_then_advance [OF d a(1,2) c, of Correct]
  note t2 = mark_then_advance [OF d b(1,2) c, of Correct]
  show ?thesis
    using t1 t2 a(3) b(3) d n e by simp
qed

text \<open>
  C2, as the specification states it, at \<open>write_done\<close>: \<open>next\<close> moves to position 1, whose
  word is correct, where the search for an unset-or-skipped word and the search for a
  word that is not correct both give position 2.
\<close>

theorem next_search_counterexample:
  "index (next_word WORDS write_done) \<noteq>
     spec_search (remaining_at WORDS (statuses write_done)) (length WORDS) (index write_done) \<and>
   index (next_word WORDS write_done) \<noteq>
     spec_search (not_correct_at WORDS (statuses write_done)) (length WORDS) (index write_done)"
  by code_simp

text \<open>
  C2, amended. In App.tsx, \<open>goNext\<close> moves to the nearest position strictly after the
  current one, wrapping to the start, whose status is not correct, and stays when there
  is none. In main.tsx, \<open>next\<close> moves from any position but the last to the position right
  after it, whatever the status there; only from the last position does it search, from
  the start of the list, for the first unset-or-skipped word, and it shows the summary
  when the position does not change.
\<close>

theorem next_search_policies:
  assumes "0 \<le> index_txt t" and "index_txt t < int (length (words t))"
    and "0 \<le> index s" and "index s < int (length ws)"
  shows "goNext t = t\<lparr>index_txt :=
       spec_search (not_correct_txt (statuses_txt t)) (length (words t)) (index_txt t)\<rparr> \<and>
    (index s < int (length ws) - 1 \<longrightarrow> next_word ws s = s\<lparr>index := index s + 1\<rparr>) \<and>
    (index s = int (length ws) - 1 \<longrightarrow>
       index (next_word ws s) =
         spec_search (remaining_at ws (statuses s)) (length ws) (index s) \<and>
       view (next_word ws s) =
         (if spec_search (remaining_at ws (statuses s)) (length ws) (index s) = index s
          then Summary else view s))"
proof (intro conjI impI)
  show "goNext t = t\<lparr>index_txt :=
       spec_search (not_correct_txt (statuses_txt t)) (length (words t)) (index_txt t)\<rparr>"
    using assms(1,2) by (rule goNext_search)
next
  assume "index s < int (length ws) - 1"
  then show "next_word ws s = s\<lparr>index := index s + 1\<rparr>"
    by (simp add: next_word_def nextIndex_inner)
next
  assume last: "index s = int (length ws) - 1"
  have ne: "ws \<noteq> []" using assms(3,4) by auto
  show "index (next_word ws s) =
         spec_search (remaining_at ws (statuses s)) (length ws) (index s)"
    by (simp add: index_next_word nextIndex_last_search [OF last ne])
  show "view (next_word ws s) =
         (if spec_search (remaining_at ws (statuses s)) (length ws) (index s) = index s
          then Summary else view s)"
    by (simp add: view_next_word nextIndex_last_search [OF last ne])
qed

theorem next_search_policies_witness:
  "goNext three_txt = three_txt\<lparr>index_txt := 1\<rparr> \<and>
   next_word WORDS write_done = write_done\<lparr>index := index write_done + 1\<rparr> \<and>
   index (next_word WORDS coach_skipped) = 8 \<and>
   view (next_word WORDS coach_skipped) = Trainer"
proof -
  have a: "0 \<le> index write_done" "index write_done < int (length WORDS)"
    "index write_done < int (length WORDS) - 1"
    by code_simp+
  have b: "0 \<le> index coach_skipped" "index coach_skipped < int (length WORDS)"
    "index coach_skipped = int (length WORDS) - 1"
    by code_simp+
  have c: "0 \<le> index_txt three_txt" "index_txt three_txt < int (length (words three_txt))"
    by code_simp+
  have e: "spec_search (not_correct_txt (statuses_txt three_txt))
        (length (words three_txt)) (index_txt three_txt) = 1"
    by code_simp
  have n: "spec_search (remaining_at WORDS (statuses coach_skipped)) (length WORDS)
        (index coach_skipped) = 8"
    by code_simp
  have v: "index coach_skipped = 24" "view coach_skipped = Trainer"
    by (simp_all add: coach_skipped_def)
  note t1 = next_search_policies [OF c a(1,2)]
  note t2 = next_search_policies [OF c b(1,2)]
  show ?thesis
    using t1 t2 a(3) b(3) e n v by simp
qed

text \<open>
  C3, as the specification states it, at \<open>all_correct\<close>: every word is correct, yet \<open>next\<close>
  and \<open>handleMark\<close> move from position 0 to position 1 and leave the trainer view.
\<close>

theorem complete_counterexample:
  "allDone WORDS (statuses all_correct) \<and>
   \<not> spec_complete_post all_correct (next_word WORDS all_correct) \<and>
   \<not> spec_complete_post all_correct (handleMark WORDS Correct all_correct)"
  by code_simp

text \<open>
  C3, amended. \<open>allDone\<close> (no entry in the not-answered group) holds exactly when every
  word is correct or incorrect. When that is so and the position is the last one, \<open>next\<close>
  and \<open>handleMark\<close> leave the position and show the summary; the same holds for
  \<open>handleMark\<close> at the last position when the session is complete after the mark (distinct
  words). From any earlier position both move to the position right after it and leave
  the view as it is.
\<close>

theorem complete_session_summary:
  "(allDone ws sts \<longleftrightarrow>
      (\<forall>w \<in> set ws. sts w = Some (Some Correct) \<or> sts w = Some (Some Incorrect))) \<and>
   (allDone ws sts \<longleftrightarrow> notAnswered (groups ws sts) = []) \<and>
   (allDone ws (statuses s) \<and> int (length ws) - 1 \<le> index s \<longrightarrow>
      spec_complete_post s (next_word ws s) \<and> spec_complete_post s (handleMark ws m s)) \<and>
   (distinct ws \<and> 0 \<le> index s \<and> index s = int (length ws) - 1 \<and>
    allDone ws (statuses (handleMark ws m s)) \<longrightarrow>
      spec_complete_post s (handleMark ws m s)) \<and>
   (index s < int (length ws) - 1 \<longrightarrow>
      index (next_word ws s) = index s + 1 \<and> view (next_word ws s) = view s \<and>
      index (handleMark ws m s) = index s + 1 \<and> view (handleMark ws m s) = view s)"
proof (intro conjI impI)
  show "allDone ws sts \<longleftrightarrow>
      (\<forall>w \<in> set ws. sts w = Some (Some Correct) \<or> sts w = Some (Some Incorrect))"
    by (rule allDone_iff)
next
  show "allDone ws sts \<longleftrightarrow> notAnswered (groups ws sts) = []"
    by (simp add: allDone_def)
next
  assume h: "allDone ws (statuses s) \<and> int (length ws) - 1 \<le> index s"
  then have ni: "nextIndex ws (statuses s) (index s) = index s"
    by (simp add: allDone_nextIndex)
  show "spec_complete_post s (next_word ws s)"
    by (simp add: spec_complete_post_def index_next_word view_next_word ni)
  show "spec_complete_post s (handleMark ws m s)"
    by (simp add: spec_complete_post_def index_handleMark view_handleMark ni)
next
  assume h: "distinct ws \<and> 0 \<le> index s \<and> index s = int (length ws) - 1 \<and>
    allDone ws (statuses (handleMark ws m s))"
  then have ne: "ws \<noteq> []" by auto
  then have "0 < length ws" by simp
  then have "nat (index s) < length ws" using h by linarith
  then have "spec_nearest (remaining_at ws (statuses (handleMark ws m s)))
               (length ws) (nat (index s)) = None"
    using h by (simp add: allDone_nearest)
  then show "spec_complete_post s (handleMark ws m s)"
    using handleMark_at_last [of ws s m] h ne by (simp add: spec_complete_post_def)
next
  assume "index s < int (length ws) - 1"
  then show "index (next_word ws s) = index s + 1" "view (next_word ws s) = view s"
    "index (handleMark ws m s) = index s + 1" "view (handleMark ws m s) = view s"
    by (simp_all add: index_next_word view_next_word index_handleMark view_handleMark
        nextIndex_inner)
qed

theorem complete_session_summary_witness:
  "allDone WORDS (statuses (all_correct\<lparr>index := 24\<rparr>)) \<and>
   spec_complete_post (all_correct\<lparr>index := 24\<rparr>) (next_word WORDS (all_correct\<lparr>index := 24\<rparr>)) \<and>
   spec_complete_post (all_correct\<lparr>index := 24\<rparr>)
     (handleMark WORDS Incorrect (all_correct\<lparr>index := 24\<rparr>)) \<and>
   allDone WORDS (statuses (handleMark WORDS Correct music_left)) \<and>
   spec_complete_post music_left (handleMark WORDS Correct music_left) \<and>
   index (next_word WORDS all_correct) = index all_correct + 1 \<and>
   view (next_word WORDS all_correct) = view all_correct \<and>
   index (handleMark WORDS Correct all_correct) = index all_correct + 1 \<and>
   view (handleMark WORDS Correct all_correct) = view all_correct"
proof -
  have a: "allDone WORDS (statuses (all_correct\<lparr>index := 24\<rparr>))"
    "int (length WORDS) - 1 \<le> index (all_correct\<lparr>index := 24\<rparr>)"
    by code_simp+
  have b: "distinct WORDS" "0 \<le> index music_left" "index music_left = int (length WORDS) - 1"
    "allDone WORDS (statuses (handleMark WORDS Correct music_left))"
    by code_simp+
  have c: "index all_correct < int (length WORDS) - 1"
    by code_simp
  note t1 = complete_session_summary [of WORDS "statuses all_correct" "all_correct\<lparr>index := 24\<rparr>" Incorrect]
  note t2 = complete_session_summary [of WORDS "statuses all_correct" music_left Correct]
  note t3 = complete_session_summary [of WORDS "statuses all_correct" all_correct Correct]
  show ?thesis
    using t1 t2 t3 a b c by blast
qed

subsection \<open>Claims about reset, previous and the navigation frame\<close>

text \<open>
  C4. \<open>resetAll\<close> is idempotent: applying it twice gives the state that applying it once
  gives, in which the position is 0 and every word of the list is unset (\<open>null\<close>). The
  Reset button of App.tsx is idempotent as well and leaves no status at all.
\<close>

theorem reset_idempotent:
  "resetAll ws (resetAll ws s) = resetAll ws s \<and>
   index (resetAll ws s) = 0 \<and>
   (\<forall>w \<in> set ws. statuses (resetAll ws s) w = Some None) \<and>
   reset_txt (reset_txt t) = reset_txt t \<and>
   index_txt (reset_txt t) = 0 \<and>
   (\<forall>i. statuses_txt (reset_txt t) i = None)"
  by (simp add: resetAll_def reset_txt_def cleared_apply)

theorem reset_idempotent_witness:
  "resetAll WORDS (resetAll WORDS coach_skipped) = resetAll WORDS coach_skipped \<and>
   index (resetAll WORDS coach_skipped) = 0 \<and>
   statuses (resetAll WORDS coach_skipped) ''coach'' = Some None \<and>
   reset_txt (reset_txt three_txt) = reset_txt three_txt \<and>
   index_txt (reset_txt three_txt) = 0 \<and>
   statuses_txt (reset_txt three_txt) 1 = None"
proof -
  have m: "''coach'' \<in> set WORDS" by (simp add: WORDS_def)
  show ?thesis
    using reset_idempotent [of WORDS coach_skipped three_txt] m by blast
qed

text \<open>
  C7. The two \<open>previous\<close> handlers agree above position 0, where both step back by one.
  At position 0 \<open>prev\<close> of main.tsx stays at 0 and \<open>goPrev\<close> of App.tsx goes to the last
  position, so the two differ there for every list that does not have exactly one word.
\<close>

theorem prev_policies_diverge:
  "(0 < index s \<longrightarrow> index (prev s) = index s - 1) \<and>
   (0 < index_txt t \<longrightarrow> index_txt (goPrev t) = index_txt t - 1) \<and>
   (index s = 0 \<longrightarrow> index (prev s) = 0) \<and>
   (index_txt t = 0 \<longrightarrow> index_txt (goPrev t) = int (length (words t)) - 1) \<and>
   (index s = 0 \<and> index_txt t = 0 \<and> length (words t) \<noteq> 1 \<longrightarrow>
      index (prev s) \<noteq> index_txt (goPrev t))"
  by (simp add: prev_def goPrev_def)

theorem prev_policies_diverge_witness:
  "index (prev coach_skipped) = index coach_skipped - 1 \<and>
   index_txt (goPrev (three_txt\<lparr>index_txt := 2\<rparr>)) = index_txt (three_txt\<lparr>index_txt := 2\<rparr>) - 1 \<and>
   index (prev all_correct) = 0 \<and>
   index_txt (goPrev three_txt) = int (length (words three_txt)) - 1 \<and>
   index (prev all_correct) \<noteq> index_txt (goPrev three_txt)"
proof -
  have a: "0 < index coach_skipped" "0 < index_txt (three_txt\<lparr>index_txt := 2\<rparr>)"
    by code_simp+
  have b: "index all_correct = 0" "index_txt three_txt = 0" "length (words three_txt) \<noteq> 1"
    by code_simp+
  note t1 = prev_policies_diverge [of coach_skipped "three_txt\<lparr>index_txt := 2\<rparr>"]
  note t2 = prev_policies_diverge [of all_correct three_txt]
  show ?thesis
    using t1 t2 a b by blast
qed

text \<open>
  C10. The navigation handlers leave the statuses as they are: \<open>prev\<close>, \<open>next\<close> and
  \<open>jumpToWord\<close> of main.tsx, \<open>goPrev\<close> and \<open>goNext\<close> of App.tsx.
\<close>

theorem navigation_keeps_statuses:
  "statuses (prev s) = statuses s \<and>
   statuses (next_word ws s) = statuses s \<and>
   statuses (jumpToWord ws w s) = statuses s \<and>
   statuses_txt (goPrev t) = statuses_txt t \<and>
   statuses_txt (goNext t) = statuses_txt t"
  by (simp add: prev_def next_word_def jumpToWord_def goPrev_def goNext_def
      goToNextUnfinished_def Let_def split: option.splits)

theorem navigation_keeps_statuses_witness:
  "statuses (prev coach_skipped) = statuses coach_skipped \<and>
   statuses (next_word WORDS coach_skipped) = statuses coach_skipped \<and>
   statuses (jumpToWord WORDS ''bird'' coach_skipped) = statuses coach_skipped \<and>
   statuses_txt (goPrev three_txt) = statuses_txt three_txt \<and>
   statuses_txt (goNext three_txt) = statuses_txt three_txt"
  using navigation_keeps_statuses [of coach_skipped WORDS "''bird''" three_txt]
  by blast

subsection \<open>The scenario of the specification\<close>

text \<open>
  C8, as the specification states it, in App.tsx on the list cat, dog, bird: after cat is
  marked correct the position is 1, and marking dog skipped leaves it there instead of
  moving to position 2.
\<close>

theorem scenario_counterexample:
  "index_txt (updateStatus Correct_txt cat_dog_bird_txt) = 1 \<and>
   index_txt (updateStatus Skipped_txt (updateStatus Correct_txt cat_dog_bird_txt)) \<noteq> 2"
  by code_simp

text \<open>
  C8, amended. With the handlers of main.tsx on the list cat, dog, bird, from the default
  state: marking cat correct moves to position 1 (dog); marking dog skipped moves to
  position 2 (bird); marking bird correct leaves dog skipped, so the session is not
  complete and the not-answered group is exactly dog. In App.tsx only a mark of correct
  moves the position: any other mark leaves it where it is.
\<close>

theorem scenario_cat_dog_bird:
  "index (handleMark cat_dog_bird Correct (default_state cat_dog_bird)) = 1 \<and>
   word_at cat_dog_bird 0 = ''cat'' \<and>
   word_at cat_dog_bird 1 = ''dog'' \<and>
   index (handleMark cat_dog_bird Skipped
           (handleMark cat_dog_bird Correct (default_state cat_dog_bird))) = 2 \<and>
   word_at cat_dog_bird 2 = ''bird'' \<and>
   statuses (handleMark cat_dog_bird Correct
     (handleMark cat_dog_bird Skipped
       (handleMark cat_dog_bird Correct (default_state cat_dog_bird)))) ''dog'' =
     Some (Some Skipped) \<and>
   \<not> allDone cat_dog_bird (statuses (handleMark cat_dog_bird Correct
     (handleMark cat_dog_bird Skipped
       (handleMark cat_dog_bird Correct (default_state cat_dog_bird))))) \<and>
   notAnswered (groups cat_dog_bird (statuses (handleMark cat_dog_bird Correct
     (handleMark cat_dog_bird Skipped
       (handleMark cat_dog_bird Correct (default_state cat_dog_bird)))))) = [''dog''] \<and>
   (st \<noteq> Correct_txt \<longrightarrow> index_txt (updateStatus st t) = index_txt t)"
  by (simp add: handleMark_def default_state_def cat_dog_bird_def nextIndex_def word_at_def
      Let_def cleared_def findIndex_def remaining_word_def groups_def group_word_def
      allDone_def updateStatus_def)

theorem scenario_cat_dog_bird_witness:
  "notAnswered (groups cat_dog_bird (statuses (handleMark cat_dog_bird Correct
     (handleMark cat_dog_bird Skipped
       (handleMark cat_dog_bird Correct (default_state cat_dog_bird)))))) = [''dog''] \<and>
   index_txt (updateStatus Skipped_txt (updateStatus Correct_txt cat_dog_bird_txt)) =
     index_txt (updateStatus Correct_txt cat_dog_bird_txt)"
proof -
  have "Skipped_txt \<noteq> Correct_txt" by simp
  then show ?thesis
    using scenario_cat_dog_bird [of Skipped_txt "updateStatus Correct_txt cat_dog_bird_txt"]
    by blast
qed

subsection \<open>Persistence\<close>

lemma get_member_error: "get_member v k = Inl e \<longleftrightarrow> v = JNull \<and> e = TypeError"
  by (cases v) (auto simp: get_member_def)

lemma load_statuses_Inr:
  "get_member parsed ''statuses'' = Inr sv \<Longrightarrow>
   load_statuses parsed ws m =
     Inr (\<lambda>w. if w \<in> set ws then Some (as_status (opt_member sv w)) else m w)"
proof (induction ws arbitrary: m)
  case Nil
  then show ?case by simp
next
  case (Cons a ws)
  show ?case
    by (simp add: Cons.prems Cons.IH [OF Cons.prems] fun_eq_iff)
qed

lemma as_status_encode: "as_status (Some (encode_status st)) = st"
  by (cases st rule: option.exhaust; simp add: as_status_def encode_status_def split: Mark.splits)

lemma as_status_None: "as_status None = None"
  by (simp add: as_status_def)

lemma clamp_eq: "n \<noteq> 0 \<Longrightarrow> min (max x 0) (real n - 1) = spec_clamp n x"
  by (auto simp: spec_clamp_def min_def max_def)

lemma loadStore_saveStore:
  assumes "\<not> denied st" "\<not> full st" "ws \<noteq> []"
  shows "loadStore ws conv (saveStore st d) = Some (spec_normalize ws d)"
proof -
  let ?sm = "\<lambda>k. map_option encode_status (s_statuses d k)"
  let ?obj = "JObj [''statuses'' \<mapsto> JObj ?sm, ''index'' \<mapsto> JNum (s_index d)]"
  have g: "getItem (saveStore st d) STORAGE_KEY = Inr (Some (JSONText ?obj))"
    using assms(1,2) by (simp add: saveStore_def setItem_def getItem_def JSON_stringify_def)
  have m1: "get_member ?obj ''statuses'' = Inr (Some (JObj ?sm))"
    by (simp add: get_member_def)
  have m2: "get_member ?obj ''index'' = Inr (Some (JNum (s_index d)))"
    by (simp add: get_member_def)
  have o: "as_status (opt_member (Some (JObj ?sm)) w) =
      (case s_statuses d w of Some st \<Rightarrow> st | None \<Rightarrow> None)" for w
    by (cases "s_statuses d w")
      (simp_all add: opt_member_def get_member_def as_status_encode as_status_None)
  have n: "length ws \<noteq> 0" using assms(3) by simp
  show ?thesis
    by (simp add: loadStore_def g JSON_parse_def load_statuses_Inr [OF m1] m2 Number_of_def
        or_zero_def o clamp_eq [OF n] spec_normalize_def cong: if_cong)
qed


lemma loadStore_null_cases:
  "denied st \<or> items st STORAGE_KEY = None \<or> items st STORAGE_KEY = Some Empty \<or>
   items st STORAGE_KEY = Some NotJSON \<Longrightarrow> loadStore ws conv st = None"
  by (auto simp: loadStore_def getItem_def JSON_parse_def)

lemma load_statuses_JNull: "ws \<noteq> [] \<Longrightarrow> load_statuses JNull ws m = Inl TypeError"
  by (cases ws) (simp_all add: get_member_def)

lemma loadStore_JNull:
  "items st STORAGE_KEY = Some (JSONText JNull) \<Longrightarrow> loadStore ws conv st = None"
  by (cases ws) (auto simp: loadStore_def getItem_def JSON_parse_def get_member_def)

lemma get_member_cases:
  obtains "v = JNull" | sv where "get_member v k = Inr sv"
  by (cases "get_member v k") (auto simp: get_member_error)

lemma loadStore_Some:
  assumes "loadStore ws conv st = Some d"
  obtains parsed sv iv n where
    "\<not> denied st" "items st STORAGE_KEY = Some (JSONText parsed)"
    "get_member parsed ''statuses'' = Inr sv"
    "get_member parsed ''index'' = Inr iv"
    "Number_of conv iv = Inr n"
    "s_statuses d = (\<lambda>w. if w \<in> set ws then Some (as_status (opt_member sv w)) else None)"
    "s_index d = min (max (or_zero n) 0) (real (length ws) - 1)"
proof -
  from assms have nd: "\<not> denied st"
    by (auto simp: loadStore_def getItem_def)
  from assms nd obtain raw where raw: "items st STORAGE_KEY = Some raw"
    by (cases "items st STORAGE_KEY") (auto simp: loadStore_def getItem_def)
  from assms nd raw obtain parsed where p: "raw = JSONText parsed"
    by (cases raw) (auto simp: loadStore_def getItem_def JSON_parse_def)
  have nn: "parsed \<noteq> JNull"
    using assms loadStore_JNull [of st ws conv] raw p by auto
  then obtain sv where sv: "get_member parsed ''statuses'' = Inr sv"
    by (rule_tac v = parsed and k = "''statuses''" in get_member_cases) auto
  from nn obtain iv where iv: "get_member parsed ''index'' = Inr iv"
    by (rule_tac v = parsed and k = "''index''" in get_member_cases) auto
  from assms nd raw p sv iv obtain n where n: "Number_of conv iv = Inr n"
    by (cases "Number_of conv iv")
      (auto simp: loadStore_def getItem_def JSON_parse_def load_statuses_Inr)
  from assms nd raw p sv iv n
  have "d = \<lparr>s_statuses = (\<lambda>w. if w \<in> set ws then Some (as_status (opt_member sv w)) else None),
             s_index = min (max (or_zero n) 0) (real (length ws) - 1)\<rparr>"
    by (simp add: loadStore_def getItem_def JSON_parse_def load_statuses_Inr)
  then have "s_statuses d = (\<lambda>w. if w \<in> set ws then Some (as_status (opt_member sv w)) else None)"
    "s_index d = min (max (or_zero n) 0) (real (length ws) - 1)"
    by simp_all
  with nd raw p sv iv n show ?thesis
    using that by blast
qed

lemma loadStore_object:
  assumes "\<not> denied st" "items st STORAGE_KEY = Some (JSONText (JObj m))"
    "m ''statuses'' = Some (JObj sm)" "m ''index'' = Some (JNum x)" "ws \<noteq> []"
  shows "loadStore ws conv st =
     Some \<lparr>s_statuses = (\<lambda>w. if w \<in> set ws then Some (as_status (sm w)) else None),
           s_index = spec_clamp (length ws) x\<rparr>"
proof -
  have m1: "get_member (JObj m) ''statuses'' = Inr (Some (JObj sm))"
    using assms(3) by (simp add: get_member_def)
  have n: "length ws \<noteq> 0" using assms(5) by simp
  have o: "opt_member (Some (JObj sm)) w = sm w" for w
    by (simp add: opt_member_def get_member_def)
  show ?thesis
    using assms(1,2,4)
    by (simp add: loadStore_def getItem_def JSON_parse_def load_statuses_Inr [OF m1]
        get_member_def Number_of_def or_zero_def o clamp_eq [OF n] cong: if_cong)
qed


lemma array_index_keys: "array_index ''statuses'' = None" "array_index ''index'' = None"
  by (simp_all add: array_index_def digit_of_def)

lemma get_member_non_object:
  assumes "v = JBool b \<or> v = JNum x \<or> v = JStr t \<or> v = JArr xs"
  shows "get_member v ''statuses'' = Inr None" "get_member v ''index'' = Inr None"
  using assms by (auto simp: get_member_def array_index_keys)

lemma loadStore_parsed:
  assumes "\<not> denied st" "items st STORAGE_KEY = Some (JSONText v)" "ws \<noteq> []"
    "get_member v ''statuses'' = Inr sv" "get_member v ''index'' = Inr iv"
  shows "loadStore ws conv st =
     (case Number_of conv iv of
        Inl e \<Rightarrow> None
      | Inr n \<Rightarrow>
          Some \<lparr>s_statuses =
                  (\<lambda>w. if w \<in> set ws then Some (as_status (opt_member sv w)) else None),
                s_index = spec_clamp (length ws) (or_zero n)\<rparr>)"
proof -
  have n: "length ws \<noteq> 0" using assms(3) by simp
  show ?thesis
    using assms(1,2,5)
    by (simp add: loadStore_def getItem_def JSON_parse_def load_statuses_Inr [OF assms(4)]
        clamp_eq [OF n] split: sum.splits)
qed

lemma loadStore_JObj:
  assumes "\<not> denied st" "items st STORAGE_KEY = Some (JSONText (JObj m))" "ws \<noteq> []"
  shows "loadStore ws conv st =
     (case Number_of conv (m ''index'') of
        Inl e \<Rightarrow> None
      | Inr n \<Rightarrow>
          Some \<lparr>s_statuses =
                  (\<lambda>w. if w \<in> set ws then Some (as_status (opt_member (m ''statuses'') w))
                       else None),
                s_index = spec_clamp (length ws) (or_zero n)\<rparr>)"
  by (rule loadStore_parsed [OF assms]) (simp_all add: get_member_def)

lemma spec_clamp_zero: "n \<noteq> 0 \<Longrightarrow> spec_clamp n 0 = 0"
  by (simp add: spec_clamp_def)

lemma loadStore_non_object:
  assumes "\<not> denied st" "items st STORAGE_KEY = Some (JSONText v)" "ws \<noteq> []"
    "v = JBool b \<or> v = JNum x \<or> v = JStr t \<or> v = JArr xs"
  shows "loadStore ws conv st =
     Some \<lparr>s_statuses = (\<lambda>w. if w \<in> set ws then Some None else None), s_index = 0\<rparr>"
proof -
  have n: "length ws \<noteq> 0" using assms(3) by simp
  show ?thesis
    unfolding loadStore_parsed [OF assms(1-3) get_member_non_object [OF assms(4)]]
    by (simp add: Number_of_def or_zero_def opt_member_def as_status_None spec_clamp_zero [OF n] cong: if_cong)
qed

lemma loadStore_JObj_bare:
  assumes "\<not> denied st" "items st STORAGE_KEY = Some (JSONText (JObj m))" "ws \<noteq> []"
    "m ''statuses'' = None" "m ''index'' = None"
  shows "loadStore ws conv st =
     Some \<lparr>s_statuses = (\<lambda>w. if w \<in> set ws then Some None else None), s_index = 0\<rparr>"
proof -
  have n: "length ws \<noteq> 0" using assms(3) by simp
  show ?thesis
    unfolding loadStore_JObj [OF assms(1-3)]
    by (simp add: assms(4,5) Number_of_def or_zero_def opt_member_def as_status_None
        spec_clamp_zero [OF n] cong: if_cong)
qed

lemma opt_member_shapes:
  "opt_member None w = None"
  "opt_member (Some JNull) w = None"
  "opt_member (Some (JBool b)) w = None"
  "opt_member (Some (JNum x)) w = None"
  "opt_member (Some (JStr t)) w = None"
  "opt_member (Some (JObj sm)) w = sm w"
  "opt_member (Some (JArr xs)) w =
     (case array_index w of
        Some i \<Rightarrow> if i < length xs then Some (xs ! i) else None
      | None \<Rightarrow> None)"
  by (simp_all add: opt_member_def get_member_def)

lemma Number_of_shapes:
  "Number_of conv None = Inr NaN"
  "Number_of conv (Some JNull) = Inr (Num 0)"
  "Number_of conv (Some (JBool b)) = Inr (Num (if b then 1 else 0))"
  "Number_of conv (Some (JNum x)) = Inr (Num x)"
  "Number_of conv (Some (JStr t)) = conv (JStr t)"
  "Number_of conv (Some (JArr xs)) = conv (JArr xs)"
  "Number_of conv (Some (JObj sm)) = conv (JObj sm)"
  by (simp_all add: Number_of_def)

lemma or_zero_shapes: "or_zero NaN = 0" "or_zero (Num x) = x"
  by (simp_all add: or_zero_def)

lemma spec_clamp_range: "n \<noteq> 0 \<Longrightarrow> 0 \<le> spec_clamp n x \<and> spec_clamp n x \<le> real n - 1"
  by (auto simp: spec_clamp_def)

lemma has_entries_iff: "has_entries ws sts \<longleftrightarrow> (\<forall>w \<in> set ws. sts w \<noteq> None)"
  by (simp add: has_entries_def list_all_iff)

text \<open>
  C5, as the specification states it, fails twice. At the valid state \<open>coach_skipped\<close>
  and a store whose quota is used up, \<open>saveStore\<close> swallows the failed write, so
  \<open>loadStore\<close> finds nothing and returns \<open>null\<close>, not the normalised state. And at a
  store whose entry is the empty object, an entry that no \<open>saveStore\<close> wrote,
  \<open>loadStore\<close> returns a state, not \<open>null\<close>.
\<close>

theorem roundtrip_counterexample:
  "spec_valid WORDS coach_skipped \<and>
   loadStore WORDS no_conv (saveStore full_storage (store_of coach_skipped)) \<noteq>
     Some (spec_normalize WORDS (store_of coach_skipped)) \<and>
   loadStore WORDS no_conv empty_object_storage \<noteq> None"
proof -
  have a: "spec_valid WORDS coach_skipped"
    by code_simp
  have "saveStore full_storage (store_of coach_skipped) = full_storage"
    by (simp add: saveStore_def setItem_def full_storage_def)
  then have b: "loadStore WORDS no_conv (saveStore full_storage (store_of coach_skipped)) = None"
    by (simp add: loadStore_def getItem_def full_storage_def)
  have "\<not> denied empty_object_storage"
    "items empty_object_storage STORAGE_KEY = Some (JSONText (JObj Map.empty))"
    by (simp_all add: empty_object_storage_def)
  moreover have "WORDS \<noteq> []" by (simp add: WORDS_def)
  ultimately have c: "loadStore WORDS no_conv empty_object_storage \<noteq> None"
    using loadStore_JObj_bare [of empty_object_storage Map.empty WORDS no_conv] by simp
  show ?thesis
    using a b c by simp
qed

text \<open>
  C5, amended. Round trip: for a valid state and a store that takes the write, \<open>loadStore\<close>
  after \<open>saveStore\<close> returns the normalised state, which for a valid state has the
  position and, on every word, the status of the state saved. When the write fails,
  \<open>saveStore\<close> leaves the store as it was. A stored text that is empty, that is no JSON,
  or that is the JSON \<open>null\<close> loads as \<open>null\<close>; a stored object with neither statuses nor
  index, such as the empty object, is not rejected: it loads as the state with every word
  unset at position 0.
\<close>

theorem save_load_roundtrip:
  "(\<not> denied st \<and> \<not> full st \<and> spec_valid ws s \<longrightarrow>
      loadStore ws conv (saveStore st (store_of s)) = Some (spec_normalize ws (store_of s)) \<and>
      s_index (spec_normalize ws (store_of s)) = real_of_int (index s) \<and>
      (\<forall>w \<in> set ws. s_statuses (spec_normalize ws (store_of s)) w = statuses s w)) \<and>
   (denied st \<or> full st \<longrightarrow> saveStore st (store_of s) = st) \<and>
   (items st STORAGE_KEY = Some Empty \<or> items st STORAGE_KEY = Some NotJSON \<or>
    items st STORAGE_KEY = Some (JSONText JNull) \<longrightarrow> loadStore ws conv st = None) \<and>
   (\<not> denied st \<and> items st STORAGE_KEY = Some (JSONText (JObj m)) \<and> ws \<noteq> [] \<and>
    m ''statuses'' = None \<and> m ''index'' = None \<longrightarrow>
      loadStore ws conv st =
        Some \<lparr>s_statuses = (\<lambda>w. if w \<in> set ws then Some None else None), s_index = 0\<rparr>)"
proof (intro conjI impI)
  assume "denied st \<or> full st"
  then show "saveStore st (store_of s) = st"
    by (auto simp: saveStore_def setItem_def)
next
  assume h: "\<not> denied st \<and> \<not> full st \<and> spec_valid ws s"
  then have ne: "ws \<noteq> []" by (auto simp: spec_valid_def)
  show "loadStore ws conv (saveStore st (store_of s)) = Some (spec_normalize ws (store_of s))"
    using h ne by (simp add: loadStore_saveStore)
  show "s_index (spec_normalize ws (store_of s)) = real_of_int (index s)"
    using h by (auto simp: spec_normalize_def store_of_def spec_clamp_def spec_valid_def)
  show "\<forall>w \<in> set ws. s_statuses (spec_normalize ws (store_of s)) w = statuses s w"
    using h by (auto simp: spec_normalize_def store_of_def spec_valid_def has_entries_iff)
next
  assume "items st STORAGE_KEY = Some Empty \<or> items st STORAGE_KEY = Some NotJSON \<or>
    items st STORAGE_KEY = Some (JSONText JNull)"
  then show "loadStore ws conv st = None"
    using loadStore_null_cases [of st ws conv] loadStore_JNull [of st ws conv] by blast
next
  assume "\<not> denied st \<and> items st STORAGE_KEY = Some (JSONText (JObj m)) \<and> ws \<noteq> [] \<and>
    m ''statuses'' = None \<and> m ''index'' = None"
  then show "loadStore ws conv st =
        Some \<lparr>s_statuses = (\<lambda>w. if w \<in> set ws then Some None else None), s_index = 0\<rparr>"
    using loadStore_JObj_bare [of st m ws conv] by blast
qed

theorem save_load_roundtrip_witness:
  "spec_valid WORDS coach_skipped \<and>
   loadStore WORDS no_conv (saveStore fresh_storage (store_of coach_skipped)) =
     Some (spec_normalize WORDS (store_of coach_skipped)) \<and>
   s_index (spec_normalize WORDS (store_of coach_skipped)) = real_of_int (index coach_skipped) \<and>
   s_statuses (spec_normalize WORDS (store_of coach_skipped)) ''coach'' =
     statuses coach_skipped ''coach'' \<and>
   saveStore full_storage (store_of coach_skipped) = full_storage \<and>
   loadStore WORDS no_conv garbled_storage = None \<and>
   loadStore WORDS no_conv empty_object_storage =
     Some \<lparr>s_statuses = (\<lambda>w. if w \<in> set WORDS then Some None else None), s_index = 0\<rparr>"
proof -
  have a: "\<not> denied fresh_storage" "\<not> full fresh_storage"
    by (simp_all add: fresh_storage_def)
  have f: "full full_storage"
    by (simp add: full_storage_def)
  have v: "spec_valid WORDS coach_skipped"
    by code_simp
  have g: "items garbled_storage STORAGE_KEY = Some NotJSON"
    by (simp add: garbled_storage_def)
  have e: "\<not> denied empty_object_storage"
    "items empty_object_storage STORAGE_KEY = Some (JSONText (JObj Map.empty))"
    "Map.empty ''statuses'' = (None :: json option)" "Map.empty ''index'' = (None :: json option)"
    by (simp_all add: empty_object_storage_def)
  have w: "WORDS \<noteq> []" by (simp add: WORDS_def)
  have m: "''coach'' \<in> set WORDS" by (simp add: WORDS_def)
  note c2 = conjunct2
  note t1 = save_load_roundtrip [of fresh_storage WORDS coach_skipped no_conv]
  note t2 = save_load_roundtrip [of garbled_storage WORDS coach_skipped no_conv]
  note t3 = save_load_roundtrip [of full_storage WORDS coach_skipped no_conv]
  note t4 = save_load_roundtrip [of empty_object_storage WORDS coach_skipped no_conv Map.empty]
  have g1: "loadStore WORDS no_conv (saveStore fresh_storage (store_of coach_skipped)) =
     Some (spec_normalize WORDS (store_of coach_skipped)) \<and>
   s_index (spec_normalize WORDS (store_of coach_skipped)) = real_of_int (index coach_skipped) \<and>
   s_statuses (spec_normalize WORDS (store_of coach_skipped)) ''coach'' =
     statuses coach_skipped ''coach''"
    using t1 [THEN conjunct1] a v m by blast
  have g2: "saveStore full_storage (store_of coach_skipped) = full_storage"
    using t3 [THEN c2, THEN conjunct1] f by blast
  have g3: "loadStore WORDS no_conv garbled_storage = None"
    using t2 [THEN c2, THEN c2, THEN conjunct1] g by blast
  have g4: "loadStore WORDS no_conv empty_object_storage =
     Some \<lparr>s_statuses = (\<lambda>w. if w \<in> set WORDS then Some None else None), s_index = 0\<rparr>"
    using t4 [THEN c2, THEN c2, THEN c2] e w by blast
  show ?thesis
    using v g1 g2 g3 g4 by blast
qed

text \<open>
  C6, as the specification states it, at a store whose entry is the number 5: the entry is
  present and parses, it is no object at all, and \<open>loadStore\<close> returns a state, not
  \<open>null\<close>.
\<close>

theorem load_malformed_counterexample:
  "loadStore WORDS no_conv number_storage \<noteq> None"
proof -
  have "\<not> denied number_storage"
    "items number_storage STORAGE_KEY = Some (JSONText (JNum 5))"
    by (simp_all add: number_storage_def)
  moreover have "WORDS \<noteq> []" by (simp add: WORDS_def)
  ultimately show ?thesis
    using loadStore_non_object [of number_storage "JNum 5" WORDS _ 5] by simp
qed

text \<open>
  C6, amended. \<open>loadStore\<close> returns \<open>null\<close> when the store cannot be read, when the key
  is absent, when the text is empty or fails to parse, when the parsed value is \<open>null\<close>,
  and when the conversion of the stored index to a number throws. Every other stored
  value is normalised, not rejected. A value that is no object (a boolean, a number, a
  string, an array) loads as the state with every word unset at position 0. For an
  object the result has exactly the words of the list as keys (other keys are dropped);
  each word has the status read from the stored statuses when that is one of the three
  known strings and is unset otherwise, also when the statuses are missing or are no
  object; the position is \<open>Number(index) || 0\<close> (0 for a missing index) clamped into
  \<open>[0, wordCount - 1]\<close>, unchanged when it already lies there. Whatever was stored, a
  result that is not \<open>null\<close> has that form.
\<close>

theorem load_normalizes:
  "(denied st \<or> items st STORAGE_KEY = None \<or> items st STORAGE_KEY = Some Empty \<or>
    items st STORAGE_KEY = Some NotJSON \<or> items st STORAGE_KEY = Some (JSONText JNull) \<longrightarrow>
      loadStore ws conv st = None) \<and>
   (\<not> denied st \<and> items st STORAGE_KEY = Some (JSONText (JObj m)) \<and>
    m ''statuses'' = Some (JObj sm) \<and> m ''index'' = Some (JNum x) \<and> ws \<noteq> [] \<longrightarrow>
      loadStore ws conv st =
        Some \<lparr>s_statuses = (\<lambda>w. if w \<in> set ws then Some (as_status (sm w)) else None),
              s_index = spec_clamp (length ws) x\<rparr>) \<and>
   (loadStore ws conv st = Some d \<and> ws \<noteq> [] \<longrightarrow>
      dom (s_statuses d) = set ws \<and> 0 \<le> s_index d \<and> s_index d \<le> real (length ws) - 1) \<and>
   as_status (Some (JStr ''correct'')) = Some Correct \<and>
   as_status (Some (JStr ''incorrect'')) = Some Incorrect \<and>
   as_status (Some (JStr ''skipped'')) = Some Skipped \<and>
   (v \<noteq> Some (JStr ''correct'') \<and> v \<noteq> Some (JStr ''incorrect'') \<and>
    v \<noteq> Some (JStr ''skipped'') \<longrightarrow> as_status v = None) \<and>
   (ws \<noteq> [] \<longrightarrow> 0 \<le> spec_clamp (length ws) x \<and> spec_clamp (length ws) x \<le> real (length ws) - 1) \<and>
   (0 \<le> x \<and> x \<le> real (length ws) - 1 \<longrightarrow> spec_clamp (length ws) x = x) \<and>
   (\<not> denied st \<and> items st STORAGE_KEY = Some (JSONText u) \<and>
    (u = JBool b \<or> u = JNum y \<or> u = JStr t \<or> u = JArr xs) \<and> ws \<noteq> [] \<longrightarrow>
      loadStore ws conv st =
        Some \<lparr>s_statuses = (\<lambda>w. if w \<in> set ws then Some None else None), s_index = 0\<rparr>) \<and>
   (\<not> denied st \<and> items st STORAGE_KEY = Some (JSONText (JObj m)) \<and> ws \<noteq> [] \<longrightarrow>
      loadStore ws conv st =
        (case Number_of conv (m ''index'') of
           Inl e \<Rightarrow> None
         | Inr n \<Rightarrow>
             Some \<lparr>s_statuses =
                     (\<lambda>w. if w \<in> set ws
                          then Some (as_status (opt_member (m ''statuses'') w)) else None),
                   s_index = spec_clamp (length ws) (or_zero n)\<rparr>)) \<and>
   (\<not> denied st \<and> items st STORAGE_KEY = Some (JSONText (JObj m)) \<and> ws \<noteq> [] \<and>
    m ''statuses'' = None \<and> m ''index'' = None \<longrightarrow>
      loadStore ws conv st =
        Some \<lparr>s_statuses = (\<lambda>w. if w \<in> set ws then Some None else None), s_index = 0\<rparr>) \<and>
   opt_member None w = None \<and>
   opt_member (Some JNull) w = None \<and>
   opt_member (Some (JBool b)) w = None \<and>
   opt_member (Some (JNum y)) w = None \<and>
   opt_member (Some (JStr t)) w = None \<and>
   opt_member (Some (JObj sm)) w = sm w \<and>
   opt_member (Some (JArr xs)) w =
     (case array_index w of
        Some i \<Rightarrow> if i < length xs then Some (xs ! i) else None
      | None \<Rightarrow> None) \<and>
   Number_of conv None = Inr NaN \<and>
   Number_of conv (Some JNull) = Inr (Num 0) \<and>
   Number_of conv (Some (JBool b)) = Inr (Num (if b then 1 else 0)) \<and>
   Number_of conv (Some (JNum y)) = Inr (Num y) \<and>
   Number_of conv (Some (JStr t)) = conv (JStr t) \<and>
   Number_of conv (Some (JArr xs)) = conv (JArr xs) \<and>
   Number_of conv (Some (JObj sm)) = conv (JObj sm) \<and>
   or_zero NaN = 0 \<and>
   or_zero (Num y) = y"
proof -
  have c1: "denied st \<or> items st STORAGE_KEY = None \<or> items st STORAGE_KEY = Some Empty \<or>
    items st STORAGE_KEY = Some NotJSON \<or> items st STORAGE_KEY = Some (JSONText JNull) \<longrightarrow>
      loadStore ws conv st = None"
    using loadStore_null_cases [of st ws conv] loadStore_JNull [of st ws conv] by blast
  have c2: "\<not> denied st \<and> items st STORAGE_KEY = Some (JSONText (JObj m)) \<and>
    m ''statuses'' = Some (JObj sm) \<and> m ''index'' = Some (JNum x) \<and> ws \<noteq> [] \<longrightarrow>
      loadStore ws conv st =
        Some \<lparr>s_statuses = (\<lambda>w. if w \<in> set ws then Some (as_status (sm w)) else None),
              s_index = spec_clamp (length ws) x\<rparr>"
    by (simp add: loadStore_object)
  have c3: "loadStore ws conv st = Some d \<and> ws \<noteq> [] \<longrightarrow>
      dom (s_statuses d) = set ws \<and> 0 \<le> s_index d \<and> s_index d \<le> real (length ws) - 1"
  proof
    assume h: "loadStore ws conv st = Some d \<and> ws \<noteq> []"
    then obtain sv n where
      s: "s_statuses d =
        (\<lambda>w. if w \<in> set ws then Some (as_status (opt_member sv w)) else None)"
      and i: "s_index d = min (max (or_zero n) 0) (real (length ws) - 1)"
      by (auto elim: loadStore_Some)
    have n: "length ws \<noteq> 0" using h by simp
    have "dom (s_statuses d) = set ws"
      by (auto simp: s dom_def)
    moreover have "0 \<le> s_index d" "s_index d \<le> real (length ws) - 1"
      using spec_clamp_range [OF n] by (simp_all add: i clamp_eq [OF n])
    ultimately show "dom (s_statuses d) = set ws \<and> 0 \<le> s_index d \<and>
        s_index d \<le> real (length ws) - 1"
      by simp
  qed
  have c4: "as_status (Some (JStr ''correct'')) = Some Correct"
    and c5: "as_status (Some (JStr ''incorrect'')) = Some Incorrect"
    and c6: "as_status (Some (JStr ''skipped'')) = Some Skipped"
    by (simp_all add: as_status_def)
  have c7: "v \<noteq> Some (JStr ''correct'') \<and> v \<noteq> Some (JStr ''incorrect'') \<and>
    v \<noteq> Some (JStr ''skipped'') \<longrightarrow> as_status v = None"
    by (simp add: as_status_def)
  have c8: "ws \<noteq> [] \<longrightarrow>
      0 \<le> spec_clamp (length ws) x \<and> spec_clamp (length ws) x \<le> real (length ws) - 1"
    using spec_clamp_range [of "length ws" x] by simp
  have c9: "0 \<le> x \<and> x \<le> real (length ws) - 1 \<longrightarrow> spec_clamp (length ws) x = x"
    by (simp add: spec_clamp_def)
  have c10: "\<not> denied st \<and> items st STORAGE_KEY = Some (JSONText u) \<and>
    (u = JBool b \<or> u = JNum y \<or> u = JStr t \<or> u = JArr xs) \<and> ws \<noteq> [] \<longrightarrow>
      loadStore ws conv st =
        Some \<lparr>s_statuses = (\<lambda>w. if w \<in> set ws then Some None else None), s_index = 0\<rparr>"
    using loadStore_non_object [of st u ws b y t xs conv] by blast
  have c11: "\<not> denied st \<and> items st STORAGE_KEY = Some (JSONText (JObj m)) \<and> ws \<noteq> [] \<longrightarrow>
      loadStore ws conv st =
        (case Number_of conv (m ''index'') of
           Inl e \<Rightarrow> None
         | Inr n \<Rightarrow>
             Some \<lparr>s_statuses =
                     (\<lambda>w. if w \<in> set ws
                          then Some (as_status (opt_member (m ''statuses'') w)) else None),
                   s_index = spec_clamp (length ws) (or_zero n)\<rparr>)"
    using loadStore_JObj [of st m ws conv] by blast
  have c12: "\<not> denied st \<and> items st STORAGE_KEY = Some (JSONText (JObj m)) \<and> ws \<noteq> [] \<and>
    m ''statuses'' = None \<and> m ''index'' = None \<longrightarrow>
      loadStore ws conv st =
        Some \<lparr>s_statuses = (\<lambda>w. if w \<in> set ws then Some None else None), s_index = 0\<rparr>"
    using loadStore_JObj_bare [of st m ws conv] by blast
  have o: "opt_member None w = None"
    "opt_member (Some JNull) w = None"
    "opt_member (Some (JBool b)) w = None"
    "opt_member (Some (JNum y)) w = None"
    "opt_member (Some (JStr t)) w = None"
    "opt_member (Some (JObj sm)) w = sm w"
    "opt_member (Some (JArr xs)) w =
       (case array_index w of
          Some i \<Rightarrow> if i < length xs then Some (xs ! i) else None
        | None \<Rightarrow> None)"
    by (rule opt_member_shapes)+
  have k: "Number_of conv None = Inr NaN"
    "Number_of conv (Some JNull) = Inr (Num 0)"
    "Number_of conv (Some (JBool b)) = Inr (Num (if b then 1 else 0))"
    "Number_of conv (Some (JNum y)) = Inr (Num y)"
    "Number_of conv (Some (JStr t)) = conv (JStr t)"
    "Number_of conv (Some (JArr xs)) = conv (JArr xs)"
    "Number_of conv (Some (JObj sm)) = conv (JObj sm)"
    by (rule Number_of_shapes)+
  have z: "or_zero NaN = 0" "or_zero (Num y) = y"
    by (rule or_zero_shapes)+
  show ?thesis
    using c1 c2 c3 c4 c5 c6 c7 c8 c9 c10 c11 c12 o k z by (intro conjI)
qed

theorem load_normalizes_witness:
  "loadStore WORDS no_conv fresh_storage = None \<and>
   loadStore WORDS no_conv stale_storage =
     Some \<lparr>s_statuses = (\<lambda>w. if w \<in> set WORDS then Some (as_status (stale_statuses w)) else None),
           s_index = spec_clamp (length WORDS) 99\<rparr> \<and>
   dom (s_statuses \<lparr>s_statuses = (\<lambda>w. if w \<in> set WORDS then Some (as_status (stale_statuses w)) else None),
           s_index = spec_clamp (length WORDS) 99\<rparr>) = set WORDS \<and>
   as_status (stale_statuses ''write'') = None \<and>
   spec_clamp (length WORDS) 99 \<le> real (length WORDS) - 1 \<and>
   spec_clamp (length WORDS) 7 = 7 \<and>
   loadStore WORDS no_conv number_storage =
     Some \<lparr>s_statuses = (\<lambda>w. if w \<in> set WORDS then Some None else None), s_index = 0\<rparr> \<and>
   loadStore WORDS no_conv stale_storage =
     (case Number_of no_conv (stale_object ''index'') of
        Inl e \<Rightarrow> None
      | Inr n \<Rightarrow>
          Some \<lparr>s_statuses =
                  (\<lambda>w. if w \<in> set WORDS
                       then Some (as_status (opt_member (stale_object ''statuses'') w)) else None),
                s_index = spec_clamp (length WORDS) (or_zero n)\<rparr>) \<and>
   loadStore WORDS no_conv empty_object_storage =
     Some \<lparr>s_statuses = (\<lambda>w. if w \<in> set WORDS then Some None else None), s_index = 0\<rparr>"
proof -
  have f: "items fresh_storage STORAGE_KEY = None"
    by (simp add: fresh_storage_def)
  have s: "\<not> denied stale_storage"
    "items stale_storage STORAGE_KEY = Some (JSONText (JObj stale_object))"
    "stale_object ''statuses'' = Some (JObj stale_statuses)"
    "stale_object ''index'' = Some (JNum 99)"
    by (simp_all add: stale_storage_def stale_object_def)
  have p: "\<not> denied number_storage"
    "items number_storage STORAGE_KEY = Some (JSONText (JNum 5))"
    by (simp_all add: number_storage_def)
  have e: "\<not> denied empty_object_storage"
    "items empty_object_storage STORAGE_KEY = Some (JSONText (JObj Map.empty))"
    "Map.empty ''statuses'' = (None :: json option)" "Map.empty ''index'' = (None :: json option)"
    by (simp_all add: empty_object_storage_def)
  have w: "WORDS \<noteq> []" by (simp add: WORDS_def)
  have u: "stale_statuses ''write'' \<noteq> Some (JStr ''correct'')"
    "stale_statuses ''write'' \<noteq> Some (JStr ''incorrect'')"
    "stale_statuses ''write'' \<noteq> Some (JStr ''skipped'')"
    by (simp_all add: stale_statuses_def)
  have r: "(0::real) \<le> 7" "(7::real) \<le> real (length WORDS) - 1"
    by (simp_all add: length_WORDS)
  let ?d = "\<lparr>s_statuses = (\<lambda>w. if w \<in> set WORDS then Some (as_status (stale_statuses w)) else None),
           s_index = spec_clamp (length WORDS) 99\<rparr>"
  note t1 = load_normalizes [where st = fresh_storage and ws = WORDS and conv = no_conv]
  note t2 = load_normalizes [where st = stale_storage and ws = WORDS and conv = no_conv
      and m = stale_object and sm = stale_statuses and x = 99 and d = ?d
      and v = "stale_statuses ''write''"]
  note t3 = load_normalizes [where ws = WORDS and x = 7]
  note t4 = load_normalizes [where st = number_storage and ws = WORDS and conv = no_conv
      and u = "JNum 5" and y = 5]
  note t5 = load_normalizes [where st = empty_object_storage and ws = WORDS and conv = no_conv
      and m = Map.empty]
  have g1: "loadStore WORDS no_conv fresh_storage = None"
    using t1 [THEN conjunct1] f by blast
  have g2: "loadStore WORDS no_conv stale_storage = Some ?d"
    using t2 [THEN conjunct2, THEN conjunct1] s w by blast
  have g3: "dom (s_statuses ?d) = set WORDS"
    using t2 [THEN conjunct2, THEN conjunct2, THEN conjunct1] g2 w by blast
  have g4: "as_status (stale_statuses ''write'') = None"
    using t2 [THEN conjunct2, THEN conjunct2, THEN conjunct2, THEN conjunct2, THEN conjunct2, THEN conjunct2, THEN conjunct1] u by blast
  have g5: "spec_clamp (length WORDS) 99 \<le> real (length WORDS) - 1"
    using t2 [THEN conjunct2, THEN conjunct2, THEN conjunct2, THEN conjunct2, THEN conjunct2, THEN conjunct2, THEN conjunct2, THEN conjunct1] w by blast
  have g6: "spec_clamp (length WORDS) 7 = 7"
    using t3 [THEN conjunct2, THEN conjunct2, THEN conjunct2, THEN conjunct2, THEN conjunct2, THEN conjunct2, THEN conjunct2, THEN conjunct2, THEN conjunct1] r by blast
  have g7: "loadStore WORDS no_conv number_storage =
     Some \<lparr>s_statuses = (\<lambda>w. if w \<in> set WORDS then Some None else None), s_index = 0\<rparr>"
    using t4 [THEN conjunct2, THEN conjunct2, THEN conjunct2, THEN conjunct2, THEN conjunct2, THEN conjunct2, THEN conjunct2, THEN conjunct2, THEN conjunct2, THEN conjunct1] p w by blast
  have g8: "loadStore WORDS no_conv stale_storage =
     (case Number_of no_conv (stale_object ''index'') of
        Inl e \<Rightarrow> None
      | Inr n \<Rightarrow>
          Some \<lparr>s_statuses =
                  (\<lambda>w. if w \<in> set WORDS
                       then Some (as_status (opt_member (stale_object ''statuses'') w)) else None),
                s_index = spec_clamp (length WORDS) (or_zero n)\<rparr>)"
    using t2 [THEN conjunct2, THEN conjunct2, THEN conjunct2, THEN conjunct2, THEN conjunct2, THEN conjunct2, THEN conjunct2, THEN conjunct2, THEN conjunct2, THEN conjunct2, THEN conjunct1] s(1,2) w by blast
  have g9: "loadStore WORDS no_conv empty_object_storage =
     Some \<lparr>s_statuses = (\<lambda>w. if w \<in> set WORDS then Some None else None), s_index = 0\<rparr>"
    using t5 [THEN conjunct2, THEN conjunct2, THEN conjunct2, THEN conjunct2, THEN conjunct2, THEN conjunct2, THEN conjunct2, THEN conjunct2, THEN conjunct2, THEN conjunct2, THEN conjunct2, THEN conjunct1] e w by blast
  show ?thesis
    using g1 g2 g3 g4 g5 g6 g7 g8 g9 by (intro conjI)
qed

subsection \<open>The word file\<close>

lemma CR_neq_LF: "CR \<noteq> LF"
  by (simp add: CR_def LF_def)

lemma LF_neq_CR: "LF \<noteq> CR"
  by (simp add: CR_def LF_def)

lemma add_to_first_nonempty: "add_to_first c ls \<noteq> []"
  by (cases ls) auto

lemma split_lines_nonempty: "split_lines txt \<noteq> []"
  by (induction "txt" rule: split_lines.induct) (auto simp: add_to_first_nonempty)

lemma split_lines_no_LF: "l \<in> set (split_lines txt) \<Longrightarrow> LF \<notin> set l"
proof (induction "txt" arbitrary: l rule: split_lines.induct)
  case 1
  then show ?case by simp
next
  case (2 c)
  then show ?case by (auto split: if_splits)
next
  case (3 c d cs)
  obtain m ms where ms: "split_lines (d # cs) = m # ms"
    using split_lines_nonempty [of "d # cs"] by (cases "split_lines (d # cs)") auto
  show ?case
  proof (cases "c = CR \<and> d = LF")
    case True
    with 3 show ?thesis by auto
  next
    case False
    show ?thesis
    proof (cases "c = LF")
      case True
      with False 3 show ?thesis by (auto simp: LF_neq_CR)
    next
      case nl: False
      have "m \<in> set (split_lines (d # cs))" "\<And>x. x \<in> set ms \<Longrightarrow> x \<in> set (split_lines (d # cs))"
        by (simp_all add: ms)
      with False nl 3 show ?thesis
        by (auto simp: ms)
    qed
  qed
qed

lemma join_add_to_first: "ls \<noteq> [] \<Longrightarrow> join_lines (add_to_first c ls) = c # join_lines ls"
  by (cases ls rule: join_lines.cases) auto

lemma join_empty_first: "ls \<noteq> [] \<Longrightarrow> join_lines ([] # ls) = LF # join_lines ls"
  by (cases ls) auto

lemma join_split_lines: "join_lines (split_lines txt) = drop_cr txt"
  by (induction "txt" rule: split_lines.induct)
    (auto simp: join_add_to_first join_empty_first split_lines_nonempty CR_neq_LF)

lemma trim_empty_iff: "trim l = [] \<longleftrightarrow> blank_line l"
proof -
  let ?ys = "dropWhile is_space l"
  let ?zs = "dropWhile is_space (rev ?ys)"
  have a: "trim l = [] \<longleftrightarrow> ?zs = []"
    unfolding trim_def by (simp only: rev_is_Nil_conv)
  have b: "?ys = [] \<longleftrightarrow> blank_line l"
    by (simp add: list_all_iff blank_line_def)
  have c: "?zs = [] \<longleftrightarrow> ?ys = []"
  proof
    assume z: "?zs = []"
    show "?ys = []"
    proof (rule ccontr)
      assume n: "?ys \<noteq> []"
      then have "\<not> is_space (hd ?ys)"
        by (rule hd_dropWhile)
      moreover have "hd ?ys \<in> set (rev ?ys)"
        unfolding set_rev using n by (rule hd_in_set)
      moreover have "\<forall>x \<in> set (rev ?ys). is_space x"
        using z by (simp only: dropWhile_eq_Nil_conv)
      ultimately show False by blast
    qed
  next
    assume "?ys = []"
    then show "?zs = []" by (simp only: rev.simps dropWhile.simps)
  qed
  show ?thesis
    using a b c by blast
qed

lemma last_dropWhile: "dropWhile P xs \<noteq> [] \<Longrightarrow> last (dropWhile P xs) = last xs"
  by (induction xs) (auto split: if_splits)

lemma trim_ends:
  assumes "trim l \<noteq> []"
  shows "\<not> is_space (hd (trim l)) \<and> \<not> is_space (last (trim l))"
proof -
  let ?ys = "dropWhile is_space l"
  let ?zs = "dropWhile is_space (rev ?ys)"
  have z: "?zs \<noteq> []"
    using assms unfolding trim_def by (simp only: rev_is_Nil_conv not_False_eq_True)
  have y: "?ys \<noteq> []"
  proof
    assume "?ys = []"
    then have "?zs = []" by (simp only: rev.simps dropWhile.simps)
    with z show False by blast
  qed
  have "last (trim l) = hd ?zs"
    unfolding trim_def by (rule last_rev)
  moreover have "\<not> is_space (hd ?zs)" using z by (rule hd_dropWhile)
  moreover have "hd (trim l) = last ?zs"
    unfolding trim_def by (rule hd_rev)
  moreover have "last ?zs = last (rev ?ys)" using z by (rule last_dropWhile)
  moreover have "last (rev ?ys) = hd ?ys" by (rule last_rev)
  moreover have "\<not> is_space (hd ?ys)" using y by (rule hd_dropWhile)
  ultimately show ?thesis by simp
qed

lemma parseWords_nonblank:
  "parseWords txt = take 100 (map trim (filter (\<lambda>l. \<not> blank_line l) (split_lines txt)))"
  by (simp add: parseWords_def filter_map comp_def trim_empty_iff)


lemma loadTxt_words: "loadTxt f = Inr ws \<Longrightarrow> ws \<noteq> []"
  by (auto simp: loadTxt_def Let_def split: fetch_outcome.splits option.splits if_splits)

text \<open>
  C9. \<open>parseWords\<close> gives at most 100 entries: the trimmed non-blank lines of the text,
  in the order of the lines, cut after the first 100. Every entry is a trimmed line, is
  not empty and neither starts nor ends with whitespace. The lines are the pieces of the
  text between line feeds (a carriage return right before a line feed belongs to the
  break). \<open>loadTxt\<close> fails when the fetch is rejected, when the response is not \<open>ok\<close> and
  when the file has no word; a list it returns is never empty.
\<close>

theorem parseWords_lines:
  "length (parseWords txt) \<le> 100 \<and>
   parseWords txt = take 100 (map trim (filter (\<lambda>l. \<not> blank_line l) (split_lines txt))) \<and>
   subseq (parseWords txt) (map trim (split_lines txt)) \<and>
   (\<forall>w \<in> set (parseWords txt). w \<noteq> [] \<and> \<not> is_space (hd w) \<and> \<not> is_space (last w)) \<and>
   join_lines (split_lines txt) = drop_cr txt \<and>
   (\<forall>l \<in> set (split_lines txt). LF \<notin> set l) \<and>
   loadTxt Rejected = Inl NetworkFailure \<and>
   (\<not> ok res \<longrightarrow> loadTxt (Responded res) = Inl (FailedToLoad (status res))) \<and>
   (ok res \<and> body res = Some txt \<and> parseWords txt = [] \<longrightarrow>
      loadTxt (Responded res) = Inl NoWords) \<and>
   (ok res \<and> body res = Some txt \<and> parseWords txt \<noteq> [] \<longrightarrow>
      loadTxt (Responded res) = Inr (parseWords txt)) \<and>
   (loadTxt f = Inr ws \<longrightarrow> ws \<noteq> [])"
proof (intro conjI impI ballI)
  show "length (parseWords txt) \<le> 100"
    by (simp add: parseWords_def)
next
  show "parseWords txt = take 100 (map trim (filter (\<lambda>l. \<not> blank_line l) (split_lines txt)))"
    by (rule parseWords_nonblank)
next
  have "subseq (parseWords txt) (filter (\<lambda>l. length l > 0) (map trim (split_lines txt)))"
    unfolding parseWords_def by (rule sublist_imp_subseq [OF sublist_take])
  also have "subseq \<dots> (map trim (split_lines txt))"
    by (rule subseq_filter_left)
  finally show "subseq (parseWords txt) (map trim (split_lines txt))" .
next
  fix w assume w: "w \<in> set (parseWords txt)"
  then have "w \<in> set (filter (\<lambda>l. length l > 0) (map trim (split_lines txt)))"
    unfolding parseWords_def by (rule in_set_takeD)
  then obtain l where l: "w = trim l" "trim l \<noteq> []"
    by auto
  show "w \<noteq> []" using l by simp
  show "\<not> is_space (hd w)" "\<not> is_space (last w)"
    using trim_ends [OF l(2)] l(1) by simp_all
next
  show "join_lines (split_lines txt) = drop_cr txt"
    by (rule join_split_lines)
next
  fix l assume "l \<in> set (split_lines txt)"
  then show "LF \<notin> set l" by (rule split_lines_no_LF)
next
  show "loadTxt Rejected = Inl NetworkFailure"
    by (simp add: loadTxt_def)
next
  assume "\<not> ok res"
  then show "loadTxt (Responded res) = Inl (FailedToLoad (status res))"
    by (simp add: loadTxt_def)
next
  assume "ok res \<and> body res = Some txt \<and> parseWords txt = []"
  then show "loadTxt (Responded res) = Inl NoWords"
    by (simp add: loadTxt_def)
next
  assume "ok res \<and> body res = Some txt \<and> parseWords txt \<noteq> []"
  then show "loadTxt (Responded res) = Inr (parseWords txt)"
    by (simp add: loadTxt_def Let_def)
next
  assume "loadTxt f = Inr ws"
  then show "ws \<noteq> []" by (rule loadTxt_words)
qed

theorem parseWords_lines_witness:
  "parseWords sample_txt = [[0x63, 0x61, 0x74], [0x64, 0x6F, 0x67], [0x62, 0x69, 0x72, 0x64]] \<and>
   length (parseWords sample_txt) \<le> 100 \<and>
   subseq (parseWords sample_txt) (map trim (split_lines sample_txt)) \<and>
   \<not> is_space (hd [0x64, 0x6F, 0x67]) \<and>
   LF \<notin> set [0x20, 0x20, 0x64, 0x6F, 0x67, 0x20] \<and>
   loadTxt (Responded missing_file) = Inl (FailedToLoad (status missing_file)) \<and>
   loadTxt (Responded blank_file) = Inl NoWords \<and>
   loadTxt (Responded sample_file) = Inr (parseWords sample_txt)"
proof -
  have p: "parseWords sample_txt =
      [[0x63, 0x61, 0x74], [0x64, 0x6F, 0x67], [0x62, 0x69, 0x72, 0x64]]"
    by code_simp
  have m: "[0x64, 0x6F, 0x67] \<in> set (parseWords sample_txt)"
    by (simp add: p)
  have l: "[0x20, 0x20, 0x64, 0x6F, 0x67, 0x20] \<in> set (split_lines sample_txt)"
    by code_simp
  have a: "\<not> ok missing_file"
    by (simp add: missing_file_def)
  have b: "ok blank_file" "body blank_file = Some [0x20, 0x0D, 0x0A, 0x09, 0x0A]"
    "parseWords [0x20, 0x0D, 0x0A, 0x09, 0x0A] = []"
    by code_simp+
  have c: "ok sample_file" "body sample_file = Some sample_txt" "parseWords sample_txt \<noteq> []"
    by (simp_all add: sample_file_def p)
  note c2 = conjunct2
  note t1 = parseWords_lines [of sample_txt missing_file "Responded sample_file"
      "parseWords sample_txt"]
  note t2 = parseWords_lines [of "[0x20, 0x0D, 0x0A, 0x09, 0x0A]" blank_file
      "Responded sample_file" "parseWords sample_txt"]
  note t3 = parseWords_lines [of sample_txt sample_file "Responded sample_file"
      "parseWords sample_txt"]
  have g1: "length (parseWords sample_txt) \<le> 100"
    using t1 [THEN conjunct1] .
  have g2: "subseq (parseWords sample_txt) (map trim (split_lines sample_txt))"
    using t1 [THEN c2, THEN c2, THEN conjunct1] .
  have g3: "\<not> is_space (hd [0x64, 0x6F, 0x67])"
    using t1 [THEN c2, THEN c2, THEN c2, THEN conjunct1] m by blast
  have g4: "LF \<notin> set [0x20, 0x20, 0x64, 0x6F, 0x67, 0x20]"
    using t1 [THEN c2, THEN c2, THEN c2, THEN c2, THEN c2, THEN conjunct1] l by blast
  have g5: "loadTxt (Responded missing_file) = Inl (FailedToLoad (status missing_file))"
    using t1 [THEN c2, THEN c2, THEN c2, THEN c2, THEN c2, THEN c2, THEN c2, THEN conjunct1] a
    by blast
  have g6: "loadTxt (Responded blank_file) = Inl NoWords"
    using t2 [THEN c2, THEN c2, THEN c2, THEN c2, THEN c2, THEN c2, THEN c2, THEN c2,
        THEN conjunct1] b
    by blast
  have g7: "loadTxt (Responded sample_file) = Inr (parseWords sample_txt)"
    using t3 [THEN c2, THEN c2, THEN c2, THEN c2, THEN c2, THEN c2, THEN c2, THEN c2,
        THEN c2, THEN conjunct1] c
    by blast
  show ?thesis
    using p g1 g2 g3 g4 g5 g6 g7 by (intro conjI)
qed

end
